theory Spec2Isabelle
  imports Complex_Main "HOL-Library.Char_ord" "HOL-Library.List_Lexorder"
begin

section \<open>JavaScript values used by the print pipeline\<close>

text \<open>
  Strings are modelled as \<open>string\<close>. \<open>js_String\<close> is \<open>String(n)\<close> on a number that is
  an integer: the decimal digits, with a leading minus sign for a negative value.
\<close>

definition digit_char :: "nat \<Rightarrow> char" where
  "digit_char d = ''0123456789'' ! (d mod 10)"

fun nat_digits :: "nat \<Rightarrow> string" where
  "nat_digits n = (if n < 10 then [digit_char n] else nat_digits (n div 10) @ [digit_char (n mod 10)])"

declare nat_digits.simps [simp del]

definition js_String :: "int \<Rightarrow> string" where
  "js_String n = (if n < 0 then CHR ''-'' # nat_digits (nat (- n)) else nat_digits (nat n))"

subsection \<open>Numbers\<close>

text \<open>
  A JavaScript number is an IEEE 754 double. A finite double is modelled as the rational
  it denotes (\<open>Fin\<close>), the others as \<open>NaN\<close>, \<open>PosInf\<close> and \<open>NegInf\<close>. The sign of
  zero is not modelled: none of the code modelled here divides by a value that can be
  zero, and \<open>-0\<close> is falsy and printed like \<open>0\<close>.
\<close>

datatype jsnumber = Fin rat | NaN | PosInf | NegInf

text \<open>
  Rounding to the nearest double, ties to even. \<open>bitlen n\<close> is the number of binary
  digits of \<open>n\<close>; \<open>expo x\<close> is, for a positive \<open>x\<close>, the exponent \<open>e\<close> with
  \<open>2^e \<le> x < 2^(e+1)\<close>; \<open>quantum x\<close> is the spacing of the doubles around \<open>x\<close>: 52
  binary places below the leading one, and \<open>2^-1074\<close> in the subnormal range. \<open>rnd x\<close>
  is the multiple of the quantum nearest to \<open>x\<close>, and \<open>fl x\<close> the number that an
  arithmetic operation with the exact result \<open>x\<close> returns: \<open>rnd x\<close>, or an infinity
  when that is \<open>2^1024\<close> or more in magnitude.
\<close>

fun bitlen :: "nat \<Rightarrow> nat" where
  "bitlen n = (if n = 0 then 0 else Suc (bitlen (n div 2)))"

declare bitlen.simps [simp del]

definition pow2 :: "int \<Rightarrow> rat" where
  "pow2 e = 2 powi e"

definition expo :: "rat \<Rightarrow> int" where
  "expo x = (if 1 \<le> x then int (bitlen (nat \<lfloor>x\<rfloor>)) - 1
             else - int (bitlen (nat (\<lceil>1 / x\<rceil> - 1))))"

definition round_half_even :: "rat \<Rightarrow> int" where
  "round_half_even x =
     (let f = \<lfloor>x\<rfloor>; d = x - of_int f
      in if d < 1 / 2 then f else if 1 / 2 < d then f + 1 else if even f then f else f + 1)"

definition quantum :: "rat \<Rightarrow> rat" where
  "quantum x = pow2 (max (expo \<bar>x\<bar>) (- 1022) - 52)"

definition rnd :: "rat \<Rightarrow> rat" where
  "rnd x = of_int (round_half_even (x / quantum x)) * quantum x"

definition fl :: "rat \<Rightarrow> jsnumber" where
  "fl x = (let y = rnd x
           in if pow2 1024 \<le> y then PosInf else if y \<le> - pow2 1024 then NegInf else Fin y)"

text \<open>A rational that is a double: rounding leaves it as it is.\<close>

definition isDouble :: "rat \<Rightarrow> bool" where
  "isDouble x = (fl x = Fin x)"

text \<open>
  The arithmetic operators and the comparison \<open><\<close> of the language. A comparison with
  \<open>NaN\<close> is false.
\<close>

fun js_neg :: "jsnumber \<Rightarrow> jsnumber" where
  "js_neg (Fin x) = Fin (- x)"
| "js_neg NaN = NaN"
| "js_neg PosInf = NegInf"
| "js_neg NegInf = PosInf"

fun js_add :: "jsnumber \<Rightarrow> jsnumber \<Rightarrow> jsnumber" where
  "js_add (Fin x) (Fin y) = fl (x + y)"
| "js_add NaN b = NaN"
| "js_add a NaN = NaN"
| "js_add PosInf NegInf = NaN"
| "js_add NegInf PosInf = NaN"
| "js_add PosInf b = PosInf"
| "js_add a PosInf = PosInf"
| "js_add NegInf b = NegInf"
| "js_add a NegInf = NegInf"

fun js_mul :: "jsnumber \<Rightarrow> jsnumber \<Rightarrow> jsnumber" where
  "js_mul (Fin x) (Fin y) = fl (x * y)"
| "js_mul NaN b = NaN"
| "js_mul a NaN = NaN"
| "js_mul (Fin x) PosInf = (if x = 0 then NaN else if 0 < x then PosInf else NegInf)"
| "js_mul (Fin x) NegInf = (if x = 0 then NaN else if 0 < x then NegInf else PosInf)"
| "js_mul PosInf (Fin y) = (if y = 0 then NaN else if 0 < y then PosInf else NegInf)"
| "js_mul NegInf (Fin y) = (if y = 0 then NaN else if 0 < y then NegInf else PosInf)"
| "js_mul PosInf PosInf = PosInf"
| "js_mul PosInf NegInf = NegInf"
| "js_mul NegInf PosInf = NegInf"
| "js_mul NegInf NegInf = PosInf"

fun js_div :: "jsnumber \<Rightarrow> jsnumber \<Rightarrow> jsnumber" where
  "js_div (Fin x) (Fin y) =
     (if y = 0 then (if x = 0 then NaN else if 0 < x then PosInf else NegInf) else fl (x / y))"
| "js_div NaN b = NaN"
| "js_div a NaN = NaN"
| "js_div (Fin x) PosInf = Fin 0"
| "js_div (Fin x) NegInf = Fin 0"
| "js_div PosInf (Fin y) = (if 0 \<le> y then PosInf else NegInf)"
| "js_div NegInf (Fin y) = (if 0 \<le> y then NegInf else PosInf)"
| "js_div PosInf b = NaN"
| "js_div NegInf b = NaN"

fun js_less :: "jsnumber \<Rightarrow> jsnumber \<Rightarrow> bool" where
  "js_less (Fin x) (Fin y) = (x < y)"
| "js_less NaN b = False"
| "js_less a NaN = False"
| "js_less PosInf b = False"
| "js_less a NegInf = False"
| "js_less a PosInf = True"
| "js_less NegInf b = True"

text \<open>
  The operators are written \<open>+\<close>, \<open>-\<close>, \<open>*\<close>, \<open>/\<close>, \<open><\<close> and \<open>\<le>\<close> on \<open>jsnumber\<close>:
  every one of them rounds as the language does.
\<close>

instantiation jsnumber :: "{plus, minus, uminus, times, inverse, ord}"
begin

definition plus_jsnumber :: "jsnumber \<Rightarrow> jsnumber \<Rightarrow> jsnumber" where
  "plus_jsnumber a b = js_add a b"

definition uminus_jsnumber :: "jsnumber \<Rightarrow> jsnumber" where
  "uminus_jsnumber a = js_neg a"

definition minus_jsnumber :: "jsnumber \<Rightarrow> jsnumber \<Rightarrow> jsnumber" where
  "minus_jsnumber a b = js_add a (js_neg b)"

definition times_jsnumber :: "jsnumber \<Rightarrow> jsnumber \<Rightarrow> jsnumber" where
  "times_jsnumber a b = js_mul a b"

definition divide_jsnumber :: "jsnumber \<Rightarrow> jsnumber \<Rightarrow> jsnumber" where
  "divide_jsnumber a b = js_div a b"

definition inverse_jsnumber :: "jsnumber \<Rightarrow> jsnumber" where
  "inverse_jsnumber a = js_div (Fin 1) a"

definition less_jsnumber :: "jsnumber \<Rightarrow> jsnumber \<Rightarrow> bool" where
  "less_jsnumber a b = js_less a b"

definition less_eq_jsnumber :: "jsnumber \<Rightarrow> jsnumber \<Rightarrow> bool" where
  "less_eq_jsnumber a b = (js_less a b \<or> (a = b \<and> a \<noteq> NaN))"

instance ..

end

text \<open>\<open>Math.min\<close> and \<open>Math.max\<close> against a finite constant: \<open>NaN\<close> stays \<open>NaN\<close>.\<close>

fun js_min :: "rat \<Rightarrow> jsnumber \<Rightarrow> jsnumber" where
  "js_min k (Fin n) = Fin (min k n)"
| "js_min k NaN = NaN"
| "js_min k PosInf = Fin k"
| "js_min k NegInf = NegInf"

fun js_max :: "rat \<Rightarrow> jsnumber \<Rightarrow> jsnumber" where
  "js_max k (Fin n) = Fin (max k n)"
| "js_max k NaN = NaN"
| "js_max k PosInf = PosInf"
| "js_max k NegInf = Fin k"

text \<open>A number that is an integer.\<close>

definition isInteger :: "rat \<Rightarrow> bool" where
  "isInteger x = (x = of_int \<lfloor>x\<rfloor>)"

text \<open>
  What the language runtime fixes and the source does not: the decimal string of a
  finite number that is not an integer below \<open>10^21\<close> in magnitude (an integer below
  that is written with all its digits), and the greatest length of a string.
\<close>

record jsRuntime =
  otherNumberToString :: "rat \<Rightarrow> string"
  maxStringLength :: nat

definition numberToString :: "jsRuntime \<Rightarrow> jsnumber \<Rightarrow> string" where
  "numberToString rt v =
     (case v of
        Fin x \<Rightarrow> if isInteger x \<and> \<bar>x\<bar> < 10 ^ 21 then js_String \<lfloor>x\<rfloor> else otherNumberToString rt x
      | NaN \<Rightarrow> ''NaN''
      | PosInf \<Rightarrow> ''Infinity''
      | NegInf \<Rightarrow> ''-Infinity'')"

text \<open>
  \<open>s.padStart(maxLength, '0')\<close> for a positive number \<open>maxLength\<close>: the target length
  is the number cut to an integer, \<open>2^53 - 1\<close> at most; a string that is already that
  long is returned as it is, a target above the greatest string length throws a
  \<open>RangeError\<close>, and otherwise zeros are put in front.
\<close>

definition padTarget :: "jsnumber \<Rightarrow> nat" where
  "padTarget v =
     (case v of Fin p \<Rightarrow> nat (min \<lfloor>p\<rfloor> 9007199254740991) | PosInf \<Rightarrow> 9007199254740991 | _ \<Rightarrow> 0)"

definition padStart :: "jsRuntime \<Rightarrow> jsnumber \<Rightarrow> string \<Rightarrow> string + string" where
  "padStart rt maxLength s =
     (let n = padTarget maxLength
      in if n \<le> length s then Inr s
         else if maxStringLength rt < n then Inl ''Invalid string length''
         else Inr (replicate (n - length s) (CHR ''0'') @ s))"

text \<open>
  \<open>s.slice(start)\<close>: the start is cut to an integer; a negative one counts from the end.
\<close>

definition slice :: "jsnumber \<Rightarrow> string \<Rightarrow> string" where
  "slice v s =
     (case v of
        Fin r \<Rightarrow> if 0 \<le> r then drop (nat \<lfloor>r\<rfloor>) s else drop (nat (int (length s) + \<lceil>r\<rceil>)) s
      | NaN \<Rightarrow> s
      | PosInf \<Rightarrow> []
      | NegInf \<Rightarrow> s)"

section \<open>Series numbering (VectorLayoutEngine.drawSeriesNumbers)\<close>

text \<open>
  A series configuration with numeric \<open>start\<close> and \<open>step\<close>. \<open>padLength = None\<close> stands
  for a missing (undefined or null) field, \<open>prefix = None\<close> for a prefix that is not a
  string.
\<close>

record seriesConfig =
  start :: jsnumber
  step :: jsnumber
  padLength :: "jsnumber option"
  prefix :: "string option"

text \<open>
  The body of the slot loop of \<open>drawSeriesNumbers\<close>: the string printed at slot
  \<open>slotIdx\<close> (the loop counter) of page \<open>pageIdx\<close>, or the message of the error thrown.
\<close>

definition seriesValue :: "jsRuntime \<Rightarrow> seriesConfig \<Rightarrow> jsnumber \<Rightarrow> jsnumber \<Rightarrow> nat \<Rightarrow> string + string" where
  "seriesValue rt seriesCfg pageIdx repeatPerPage slotIdx =
     (let globalIdx = pageIdx * repeatPerPage + Fin (of_nat slotIdx);
          seriesNumber = start seriesCfg + globalIdx * step seriesCfg;
          padLen = (case padLength seriesCfg of
                      None \<Rightarrow> Fin 0
                    | Some v \<Rightarrow> if v = Fin 0 \<or> v = NaN then Fin 0 else v);
          pfx = (case prefix seriesCfg of Some s \<Rightarrow> s | None \<Rightarrow> []);
          rawDigits = numberToString rt seriesNumber
      in if Fin 0 < padLen
         then (case padStart rt padLen rawDigits of
                 Inl err \<Rightarrow> Inl err
               | Inr padded \<Rightarrow>
                   (let finalDigits = (if padLen < Fin (of_nat (length padded))
                                       then slice (Fin (of_nat (length padded)) - padLen) padded
                                       else padded)
                    in Inr (pfx @ finalDigits)))
         else Inr (pfx @ rawDigits))"

text \<open>
  The series value as the specification words it: the prefix, then the decimal digits of
  \<open>start + (p * slotsPerPage + i) * step\<close>, zero-padded on the left to \<open>padLength\<close>
  when they are shorter and cut to their last \<open>padLength\<close> characters when they are
  longer; no padding for a pad length that is not positive.
\<close>

definition spec_series_digits :: "int \<Rightarrow> string \<Rightarrow> string" where
  "spec_series_digits padLen digits =
     (if padLen \<le> 0 then digits
      else if length digits \<le> nat padLen
           then replicate (nat padLen - length digits) (CHR ''0'') @ digits
           else drop (length digits - nat padLen) digits)"

definition spec_series_value :: "string \<Rightarrow> int \<Rightarrow> int \<Rightarrow> int \<Rightarrow> int \<Rightarrow> int \<Rightarrow> int \<Rightarrow> string" where
  "spec_series_value pfx st stp padLen slotsPerPage p i =
     pfx @ spec_series_digits padLen (js_String (st + (p * slotsPerPage + i) * stp))"

text \<open>An integer that a double holds exactly: its magnitude is \<open>2^53\<close> at most.\<close>

definition safeInteger :: "int \<Rightarrow> bool" where
  "safeInteger n = (\<bar>n\<bar> \<le> 9007199254740992)"

text \<open>
  A sample runtime: strings of up to \<open>2^29 - 24\<close> characters, as in V8. The series
  numbers evaluated on it below are integers, \<open>NaN\<close> or infinite, so that its
  rendering of the other numbers is never asked for.
\<close>

definition sampleRuntime :: jsRuntime where
  "sampleRuntime = \<lparr>otherNumberToString = (\<lambda>x. ''?''), maxStringLength = 536870888\<rparr>"

section \<open>Slot layout (VectorLayoutEngine)\<close>

text \<open>
  Lengths and millimetre values are JavaScript numbers, and the arithmetic on them is
  the arithmetic of doubles. A field that is \<open>null\<close> or \<open>undefined\<close> is \<open>None\<close>.

  The raw \<open>layout.repeatPerPage\<close> is \<open>Missing\<close> (\<open>undefined\<close>, \<open>null\<close> or
  another falsy value that is not a number), a number (\<open>Given\<close>), or some other
  truthy value, given with the number that \<open>Number()\<close> turns it into (\<open>Other\<close>:
  the string \<open>"8"\<close> is \<open>Other (Fin 8)\<close>, the string \<open>"0"\<close> is \<open>Other (Fin 0)\<close>,
  a non-numeric string or an object is \<open>Other NaN\<close>).
\<close>

datatype rawCount = Missing | Given jsnumber | Other jsnumber

text \<open>
  The module constants \<open>A4_WIDTH\<close>, \<open>A4_HEIGHT\<close>, \<open>SAFE_MARGIN\<close> (finite numbers) and
  the rounding function \<open>snap\<close> are imported from a constants module and
  \<open>applyCalibration\<close> from the coordinate utilities; they are parameters of the model.
\<close>

record engineConsts =
  A4_WIDTH :: rat
  A4_HEIGHT :: rat
  SAFE_MARGIN :: rat
  snap :: "jsnumber \<Rightarrow> jsnumber"
  applyCalibration :: "jsnumber \<Rightarrow> jsnumber \<Rightarrow> jsnumber \<times> jsnumber"

text \<open>The literal \<open>2.834645669\<close> denotes the double nearest to it.\<close>

definition MM_TO_PT :: jsnumber where
  "MM_TO_PT = fl (2834645669 / 1000000000)"

definition mmToPt :: "jsnumber \<Rightarrow> jsnumber" where
  "mmToPt mm = (case mm of Fin n \<Rightarrow> Fin n * MM_TO_PT | _ \<Rightarrow> NaN)"

text \<open>\<open>Math.min\<close> of two numbers.\<close>

definition math_min :: "jsnumber \<Rightarrow> jsnumber \<Rightarrow> jsnumber" where
  "math_min a b = (if a = NaN \<or> b = NaN then NaN else if a < b then a else b)"

text \<open>\<open>Number(v || d)\<close>: a falsy \<open>v\<close> (missing, \<open>0\<close>, \<open>NaN\<close>) gives the default.\<close>

fun numberOr :: "rawCount \<Rightarrow> rat \<Rightarrow> jsnumber" where
  "numberOr Missing d = Fin d"
| "numberOr (Given (Fin n)) d = (if n = 0 then Fin d else Fin n)"
| "numberOr (Given NaN) d = Fin d"
| "numberOr (Given PosInf) d = PosInf"
| "numberOr (Given NegInf) d = NegInf"
| "numberOr (Other n) d = n"

text \<open>
  \<open>createSinglePage\<close> and \<open>createPage\<close>:
  \<open>repeatPerPage = Math.max(1, Math.min(16, Number(layout?.repeatPerPage || 4)))\<close>.
\<close>

definition layoutRepeatPerPage :: "rawCount \<Rightarrow> jsnumber" where
  "layoutRepeatPerPage raw = js_max 1 (js_min 16 (numberOr raw 4))"

text \<open>
  \<open>drawSourceFragment\<close>:
  \<open>slotsPerPage = Math.max(1, Math.min(16, Number(repeatPerPage || 1)))\<close>; the argument
  is already a number, \<open>NaN || 1\<close> is \<open>1\<close> and the infinities are clamped, so the
  result is a finite number from \<open>1\<close> to \<open>16\<close> (not always an integer).
\<close>

definition fragmentSlotsPerPage :: "jsnumber \<Rightarrow> rat" where
  "fragmentSlotsPerPage repeatPerPage =
     (case js_max 1 (js_min 16 (numberOr (Given repeatPerPage) 1)) of
        Fin n \<Rightarrow> n | _ \<Rightarrow> 1)"

record layoutSlot =
  ls_index :: nat
  ls_x :: jsnumber
  ls_y :: jsnumber
  ls_width :: jsnumber
  ls_height :: jsnumber

text \<open>
  \<open>buildSlotLayoutPlan(repeatPerPage, slotSpacingPt)\<close> on a number \<open>repeatPerPage\<close>
  and on \<open>Number(slotSpacingPt)\<close>. \<open>new Array(n)\<close> throws a \<open>RangeError\<close> when \<open>n\<close> is
  not an integer from \<open>0\<close> to \<open>2^32 - 1\<close>; \<open>Math.max(1, ...)\<close> leaves a finite number
  or \<open>Infinity\<close>.
\<close>

definition buildSlotLayoutPlan :: "engineConsts \<Rightarrow> jsnumber \<Rightarrow> jsnumber \<Rightarrow> string + layoutSlot list" where
  "buildSlotLayoutPlan k repeatPerPage slotSpacingPt =
     (case js_max 1 (numberOr (Given repeatPerPage) 1) of
        Fin slotsPerPage \<Rightarrow>
          (let usableHeight = Fin (A4_HEIGHT k) - Fin 2 * Fin (SAFE_MARGIN k);
               gap = (case slotSpacingPt of Fin rawGap \<Rightarrow> Fin (max 0 rawGap) | _ \<Rightarrow> Fin 0);
               totalGaps = gap * js_max 0 (Fin slotsPerPage - Fin 1);
               heightWithGap = usableHeight - totalGaps;
               effectiveGap = (if Fin 0 < heightWithGap then gap else Fin 0);
               slotHeight = (usableHeight - effectiveGap * js_max 0 (Fin slotsPerPage - Fin 1))
                              / Fin slotsPerPage
           in if isInteger slotsPerPage \<and> slotsPerPage \<le> 4294967295
              then Inr (map (\<lambda>index.
                     \<lparr>ls_index = index,
                      ls_x = Fin (SAFE_MARGIN k),
                      ls_y = Fin (SAFE_MARGIN k) + Fin (of_nat index) * (slotHeight + effectiveGap),
                      ls_width = Fin (A4_WIDTH k) - Fin 2 * Fin (SAFE_MARGIN k),
                      ls_height = slotHeight\<rparr>) [0 ..< nat \<lfloor>slotsPerPage\<rfloor>])
              else Inl ''Invalid array length'')
      | _ \<Rightarrow> Inl ''Invalid array length'')"

text \<open>
  The crop handed to \<open>drawSourceFragment\<close>: the crop rectangle in source points and the
  optional millimetre placement fields.
\<close>

record ticketCropPt =
  crop_x :: jsnumber
  crop_y :: jsnumber
  crop_width :: jsnumber
  crop_height :: jsnumber
  xMm :: "jsnumber option"
  yMm :: "jsnumber option"
  widthMm :: "jsnumber option"
  heightMm :: "jsnumber option"
  cutMarginMm :: "jsnumber option"
  rotationDeg :: "jsnumber option"

record objectMmBox =
  obj_xMm :: jsnumber
  obj_yMm :: jsnumber
  obj_widthMm :: jsnumber
  obj_heightMm :: jsnumber

record slotPlacement =
  sp_index :: nat
  slotLeft :: jsnumber
  slotBottom :: jsnumber
  slotWidth :: jsnumber
  slotHeight :: jsnumber
  contentLeft :: jsnumber
  contentBottom :: jsnumber
  contentWidth :: jsnumber
  contentHeight :: jsnumber
  objectMm :: "objectMmBox option"
  objectBBoxWidth :: jsnumber
  objectBBoxHeight :: jsnumber
  slotScaleX :: jsnumber
  slotScaleY :: jsnumber

text \<open>
  What is drawn on the output page: the embedded crop at an origin with its two scales,
  or, when a rotation is requested, under the affine matrix built from the rotation
  angle, the two scales and the object's centre (the matrix entries need sine and cosine
  and are not computed here).
\<close>

datatype drawOp =
    DrawPage jsnumber jsnumber jsnumber jsnumber
  | DrawPageRotated rat jsnumber jsnumber jsnumber jsnumber

type_synonym page = "drawOp list"

definition finiteOrNull :: "jsnumber option \<Rightarrow> rat option" where
  "finiteOrNull v = (case v of Some (Fin r) \<Rightarrow> Some r | _ \<Rightarrow> None)"

definition assertFiniteIfPresent :: "jsnumber option \<Rightarrow> string \<Rightarrow> string option" where
  "assertFiniteIfPresent v name =
     (case v of None \<Rightarrow> None | Some (Fin r) \<Rightarrow> None
      | Some _ \<Rightarrow> Some (''MM_LAYOUT_INVALID: '' @ name @ '' must be a finite number or null''))"

text \<open>\<open>typeof v === 'number' && v > 0\<close> on a millimetre field.\<close>

definition positiveNumber :: "jsnumber option \<Rightarrow> bool" where
  "positiveNumber v = (case v of Some (Fin r) \<Rightarrow> r > 0 | Some PosInf \<Rightarrow> True | _ \<Rightarrow> False)"

definition isUserMmMode :: "ticketCropPt \<Rightarrow> bool" where
  "isUserMmMode tc = (positiveNumber (widthMm tc) \<and> positiveNumber (heightMm tc))"

text \<open>The first failing check among a list of checks, in the order of the source.\<close>

fun firstError :: "string option list \<Rightarrow> string option" where
  "firstError [] = None"
| "firstError (None # cs) = firstError cs"
| "firstError (Some e # cs) = Some e"

definition mmModeValidation :: "ticketCropPt \<Rightarrow> string option" where
  "mmModeValidation tc =
     firstError
       [assertFiniteIfPresent (widthMm tc) ''ticketCrop.widthMm'',
        assertFiniteIfPresent (heightMm tc) ''ticketCrop.heightMm'',
        assertFiniteIfPresent (xMm tc) ''ticketCrop.xMm'',
        assertFiniteIfPresent (yMm tc) ''ticketCrop.yMm'',
        assertFiniteIfPresent (cutMarginMm tc) ''ticketCrop.cutMarginMm'',
        assertFiniteIfPresent (rotationDeg tc) ''ticketCrop.rotationDeg'',
        (case finiteOrNull (xMm tc) of Some v \<Rightarrow>
           if v < 0 then Some ''MM_LAYOUT_INVALID: xMm must be >= 0'' else None | None \<Rightarrow> None),
        (case finiteOrNull (yMm tc) of Some v \<Rightarrow>
           if v < 0 then Some ''MM_LAYOUT_INVALID: yMm must be >= 0'' else None | None \<Rightarrow> None),
        (case finiteOrNull (cutMarginMm tc) of Some v \<Rightarrow>
           if v < 0 then Some ''MM_LAYOUT_INVALID: cutMarginMm must be >= 0'' else None | None \<Rightarrow> None)]"

text \<open>
  The millimetre values of the exact-unit mode: \<open>Number(v)\<close> of a field that has passed
  \<open>_finiteOrNull\<close>, and \<open>0\<close> for a start or a cut margin that is \<open>null\<close>.
\<close>

definition mmValue :: "jsnumber option \<Rightarrow> jsnumber" where
  "mmValue v = (case finiteOrNull v of Some r \<Rightarrow> Fin r | None \<Rightarrow> Fin 0)"

text \<open>
  The position of the bottom of the last object, in millimetres, and the page height in
  millimetres, as the source computes them.
\<close>

definition lastObjectBottomMm :: "ticketCropPt \<Rightarrow> rat \<Rightarrow> jsnumber" where
  "lastObjectBottomMm tc slotsPerPage =
     (let objectHeightMm = mmValue (heightMm tc);
          startYmm = mmValue (yMm tc);
          cutGapMm = mmValue (cutMarginMm tc);
          verticalStepMm = objectHeightMm + cutGapMm
      in startYmm + (Fin slotsPerPage - Fin 1) * verticalStepMm + objectHeightMm)"

definition A4_HEIGHT_MM :: "engineConsts \<Rightarrow> jsnumber" where
  "A4_HEIGHT_MM k = (Fin (A4_HEIGHT k) * fl (254 / 10)) / Fin 72"

text \<open>One iteration of the exact-unit loop: the draw operation and the placement of slot \<open>i\<close>.\<close>

definition mmSlot :: "engineConsts \<Rightarrow> ticketCropPt \<Rightarrow> nat \<Rightarrow> drawOp \<times> slotPlacement" where
  "mmSlot k tc i =
     (let objectWidthMm = mmValue (widthMm tc);
          objectHeightMm = mmValue (heightMm tc);
          startXmm = mmValue (xMm tc);
          startYmm = mmValue (yMm tc);
          cutGapMm = mmValue (cutMarginMm tc);
          objectWidthPt = snap k (mmToPt objectWidthMm);
          objectHeightPt = snap k (mmToPt objectHeightMm);
          sourceWidthPt = snap k (snap k (crop_width tc));
          sourceHeightPt = snap k (snap k (crop_height tc));
          scaleX = snap k (objectWidthPt / js_max (rnd (1 / 10000)) sourceWidthPt);
          scaleY = snap k (objectHeightPt / js_max (rnd (1 / 10000)) sourceHeightPt);
          verticalStepMm = objectHeightMm + cutGapMm;
          objXmm = startXmm;
          objYmm = startYmm + Fin (of_nat i) * verticalStepMm;
          drawX = snap k (mmToPt objXmm);
          drawY = snap k (Fin (A4_HEIGHT k) - mmToPt objYmm - objectHeightPt);
          calibratedOrigin = applyCalibration k drawX drawY;
          rot = (case finiteOrNull (rotationDeg tc) of Some r \<Rightarrow> r | None \<Rightarrow> 0);
          drawn = (if rot \<noteq> 0
                   then DrawPageRotated rot scaleX scaleY
                          (snap k (fst calibratedOrigin + objectWidthPt / Fin 2))
                          (snap k (snd calibratedOrigin + objectHeightPt / Fin 2))
                   else DrawPage (snap k (fst calibratedOrigin)) (snap k (snd calibratedOrigin)) scaleX scaleY)
      in (drawn,
          \<lparr>sp_index = i, slotLeft = drawX, slotBottom = drawY,
           slotWidth = objectWidthPt, slotHeight = objectHeightPt,
           contentLeft = drawX, contentBottom = drawY,
           contentWidth = objectWidthPt, contentHeight = objectHeightPt,
           objectMm = Some \<lparr>obj_xMm = objXmm, obj_yMm = objYmm,
                             obj_widthMm = objectWidthMm, obj_heightMm = objectHeightMm\<rparr>,
           objectBBoxWidth = snap k (snap k (crop_width tc)),
           objectBBoxHeight = snap k (snap k (crop_height tc)),
           slotScaleX = scaleX, slotScaleY = scaleY\<rparr>))"

text \<open>One iteration of the ratio-grid loop, for one slot of the layout plan.\<close>

definition ratioSlot :: "engineConsts \<Rightarrow> ticketCropPt \<Rightarrow> layoutSlot \<Rightarrow> drawOp \<times> slotPlacement" where
  "ratioSlot k tc sl =
     (let bboxWidth = snap k (crop_width tc);
          bboxHeight = snap k (crop_height tc);
          slotScale = snap k (math_min (ls_width sl / js_max (rnd (1 / 10000)) bboxWidth)
                                       (ls_height sl / js_max (rnd (1 / 10000)) bboxHeight));
          drawX = snap k (ls_x sl - Fin 0 * slotScale);
          drawY = snap k (ls_y sl + (ls_height sl - bboxHeight * slotScale) - Fin 0 * slotScale);
          calibratedOrigin = applyCalibration k drawX drawY
      in (DrawPage (snap k (fst calibratedOrigin)) (snap k (snd calibratedOrigin)) slotScale slotScale,
          \<lparr>sp_index = ls_index sl, slotLeft = ls_x sl, slotBottom = ls_y sl,
           slotWidth = ls_width sl, slotHeight = ls_height sl,
           contentLeft = drawX, contentBottom = drawY,
           contentWidth = snap k (bboxWidth * slotScale),
           contentHeight = snap k (bboxHeight * slotScale),
           objectMm = None,
           objectBBoxWidth = snap k bboxWidth,
           objectBBoxHeight = snap k bboxHeight,
           slotScaleX = slotScale, slotScaleY = slotScale\<rparr>))"

text \<open>
  \<open>drawSourceFragment(page, sourcePdf, ticketCrop, pageIdx, repeatPerPage, slotSpacingPt)\<close>:
  the page after the call, and the slot placements or the message of the error thrown.
  Copying and embedding the source page (pdf-lib) are taken to succeed.
\<close>

definition drawSourceFragment ::
  "engineConsts \<Rightarrow> page \<Rightarrow> ticketCropPt \<Rightarrow> jsnumber \<Rightarrow> jsnumber \<Rightarrow> page \<times> (string + slotPlacement list)" where
  "drawSourceFragment k pg tc repeatPerPage slotSpacingPt =
     (case (if isUserMmMode tc then mmModeValidation tc else None) of
        Some e \<Rightarrow> (pg, Inl e)
      | None \<Rightarrow>
          (let slotsPerPage = fragmentSlotsPerPage repeatPerPage
           in if isUserMmMode tc
              then (if A4_HEIGHT_MM k < lastObjectBottomMm tc slotsPerPage
                    then (pg, Inl ''Objects do not fit on page'')
                    else (let drawn = map (mmSlot k tc) [0 ..< nat \<lceil>slotsPerPage\<rceil>]
                          in (pg @ map fst drawn, Inr (map snd drawn))))
              else (case buildSlotLayoutPlan k (Fin slotsPerPage) slotSpacingPt of
                      Inl e \<Rightarrow> (pg, Inl e)
                    | Inr slotLayoutPlan \<Rightarrow>
                        (let drawn = map (ratioSlot k tc) slotLayoutPlan
                         in (pg @ map fst drawn, Inr (map snd drawn))))))"

text \<open>
  The slot placements of one page of a render call (\<open>createSinglePage\<close>, and each page of
  \<open>createPage\<close>): the repeat count is clamped, the spacing is \<open>layout.slotSpacingPt || 0\<close>.
\<close>

definition spacingOrZero :: "jsnumber option \<Rightarrow> jsnumber" where
  "spacingOrZero v = (case v of None \<Rightarrow> Fin 0 | Some NaN \<Rightarrow> Fin 0 | Some n \<Rightarrow> n)"

definition renderPageFragment ::
  "engineConsts \<Rightarrow> page \<Rightarrow> ticketCropPt \<Rightarrow> rawCount \<Rightarrow> jsnumber option \<Rightarrow> page \<times> (string + slotPlacement list)" where
  "renderPageFragment k pg tc rawRepeat rawSpacing =
     drawSourceFragment k pg tc (layoutRepeatPerPage rawRepeat) (spacingOrZero rawSpacing)"

text \<open>
  The slot height as the specification words it, in the arithmetic of the code: the
  usable height less the requested gaps, divided by the slot count; when the gaps would
  leave nothing, the gap counts as \<open>0\<close> and the height is the usable height divided by
  the slot count.
\<close>

definition usableHeight :: "engineConsts \<Rightarrow> jsnumber" where
  "usableHeight k = Fin (A4_HEIGHT k) - Fin 2 * Fin (SAFE_MARGIN k)"

definition requestedGap :: "jsnumber \<Rightarrow> jsnumber" where
  "requestedGap slotSpacingPt = (case slotSpacingPt of Fin g \<Rightarrow> Fin (max 0 g) | _ \<Rightarrow> Fin 0)"

definition spec_slot_height :: "engineConsts \<Rightarrow> int \<Rightarrow> jsnumber \<Rightarrow> jsnumber" where
  "spec_slot_height k n slotSpacingPt =
     (let rest = usableHeight k - requestedGap slotSpacingPt * Fin (of_int (n - 1))
      in if Fin 0 < rest then rest / Fin (of_int n) else usableHeight k / Fin (of_int n))"

text \<open>The gap that is left between two slots: the requested one, or \<open>0\<close> when the gaps would leave nothing.\<close>

definition spec_effective_gap :: "engineConsts \<Rightarrow> int \<Rightarrow> jsnumber \<Rightarrow> jsnumber" where
  "spec_effective_gap k n slotSpacingPt =
     (if Fin 0 < usableHeight k - requestedGap slotSpacingPt * Fin (of_int (n - 1))
      then requestedGap slotSpacingPt else Fin 0)"

text \<open>A number of the language: a finite one is a double.\<close>

definition isNumber :: "jsnumber \<Rightarrow> bool" where
  "isNumber v = (case v of Fin x \<Rightarrow> isDouble x | _ \<Rightarrow> True)"

text \<open>The top of a slot of the plan: \<open>y + height\<close>.\<close>

definition slotTop :: "layoutSlot \<Rightarrow> jsnumber" where
  "slotTop s = ls_y s + ls_height s"

text \<open>
  A sample instance of the constants, for evaluating the model: an A4 page of
  595.28 by 841.89 points (the size named in the engine's comments; the doubles nearest
  to these decimals), a margin of 20 points, a \<open>snap\<close> that leaves its argument as it
  is and no calibration offset.
\<close>

definition sampleConsts :: engineConsts where
  "sampleConsts = \<lparr>A4_WIDTH = rnd (59528 / 100), A4_HEIGHT = rnd (84189 / 100), SAFE_MARGIN = 20,
                    snap = (\<lambda>x. x), applyCalibration = (\<lambda>x y. (x, y))\<rparr>"

text \<open>
  The repeat count of a page as a function of the raw \<open>layout.repeatPerPage\<close>:
  \<open>4\<close> when it is missing, the number \<open>0\<close> or \<open>NaN\<close>; otherwise its number
  clamped to \<open>1..16\<close>, where a truthy value that is not a number and that \<open>Number()\<close>
  turns into \<open>NaN\<close> ends as \<open>NaN\<close> in \<open>createPage\<close> and as \<open>1\<close> in
  \<open>drawSourceFragment\<close>.
\<close>

definition clamp16 :: "rat \<Rightarrow> rat" where
  "clamp16 n = (if n < 1 then 1 else if 16 < n then 16 else n)"

definition spec_slots_per_page :: "rawCount \<Rightarrow> rat" where
  "spec_slots_per_page raw =
     (case raw of
        Missing \<Rightarrow> 4
      | Given v \<Rightarrow>
          (case v of Fin n \<Rightarrow> (if n = 0 then 4 else clamp16 n) | NaN \<Rightarrow> 4 | PosInf \<Rightarrow> 16 | NegInf \<Rightarrow> 1)
      | Other v \<Rightarrow>
          (case v of Fin n \<Rightarrow> clamp16 n | NaN \<Rightarrow> 1 | PosInf \<Rightarrow> 16 | NegInf \<Rightarrow> 1))"

text \<open>
  The millimetre fields that the exact-unit mode accepts, as the validation is described:
  every field is absent or finite, and \<open>xMm\<close>, \<open>yMm\<close> and \<open>cutMarginMm\<close> are not negative.
\<close>

definition finiteOrAbsent :: "jsnumber option \<Rightarrow> bool" where
  "finiteOrAbsent v = (case v of None \<Rightarrow> True | Some (Fin r) \<Rightarrow> True | Some _ \<Rightarrow> False)"

definition notNegative :: "jsnumber option \<Rightarrow> bool" where
  "notNegative v = (case v of Some (Fin r) \<Rightarrow> 0 \<le> r | _ \<Rightarrow> True)"

definition spec_mm_fields_valid :: "ticketCropPt \<Rightarrow> bool" where
  "spec_mm_fields_valid tc =
     (list_all finiteOrAbsent [widthMm tc, heightMm tc, xMm tc, yMm tc, cutMarginMm tc, rotationDeg tc]
      \<and> list_all notNegative [xMm tc, yMm tc, cutMarginMm tc])"

text \<open>A sample exact-unit crop: an object of 80 by 100 mm at (10, 10) mm with a 5 mm cut margin.\<close>

definition sampleMmCrop :: ticketCropPt where
  "sampleMmCrop = \<lparr>crop_x = Fin 0, crop_y = Fin 0, crop_width = Fin 200, crop_height = Fin 100,
                    xMm = Some (Fin 10), yMm = Some (Fin 10), widthMm = Some (Fin 80),
                    heightMm = Some (Fin 100), cutMarginMm = Some (Fin 5), rotationDeg = None\<rparr>"

text \<open>A sample crop without millimetre fields, drawn on the ratio grid.\<close>

definition sampleRatioCrop :: ticketCropPt where
  "sampleRatioCrop = \<lparr>crop_x = Fin 0, crop_y = Fin 0, crop_width = Fin 200, crop_height = Fin 100,
                       xMm = None, yMm = None, widthMm = None, heightMm = None,
                       cutMarginMm = None, rotationDeg = None\<rparr>"

section \<open>Render lock in the coordination store (releaseRenderLock)\<close>

text \<open>
  The coordination store is a Redis keyspace. A value is a string; \<open>RInt n\<close> is the
  string that is the decimal integer \<open>n\<close> (what \<open>INCR\<close> and \<open>DECR\<close> read and write,
  an integer of 64 bits), \<open>RStr s\<close> any other string.
\<close>

datatype rval = RInt int | RStr string

type_synonym redis = "string \<rightharpoonup> rval"

definition rval_string :: "rval \<Rightarrow> string" where
  "rval_string v = (case v of RInt n \<Rightarrow> js_String n | RStr s \<Rightarrow> s)"

definition lockKey :: "string \<Rightarrow> string" where
  "lockKey documentId = ''vector:render:lock:'' @ documentId"

definition activeKey :: string where
  "activeKey = ''vector:render:active''"

definition memberKey :: "string \<Rightarrow> string" where
  "memberKey jobId = ''vector:render:active:'' @ jobId"

datatype scriptResult = Returned int | ScriptError

text \<open>
  The release script, run atomically by the store on \<open>KEYS[1..3]\<close> and \<open>ARGV[1]\<close>.
  \<open>tonumber\<close> of a missing counter is \<open>0\<close>. On a counter that is not an integer string,
  \<open>luaPositive s\<close> says whether \<open>tonumber(s)\<close> is a number above \<open>0\<close>; \<open>DECR\<close> then
  fails on it, which aborts the script after the deletions have been made.
\<close>

definition RELEASE_RENDER_LOCK_LUA ::
  "(string \<Rightarrow> bool) \<Rightarrow> string \<Rightarrow> string \<Rightarrow> string \<Rightarrow> string \<Rightarrow> redis \<Rightarrow> redis \<times> scriptResult" where
  "RELEASE_RENDER_LOCK_LUA luaPositive key1 key2 key3 argv1 r =
     (let r1 = (case r key1 of
                  Some cur \<Rightarrow> if rval_string cur = argv1 then r(key1 := None) else r
                | None \<Rightarrow> r)
      in if r1 key3 \<noteq> None
         then (let r2 = r1(key3 := None)
               in case r2 key2 of
                    None \<Rightarrow> (r2, Returned 1)
                  | Some (RInt active) \<Rightarrow>
                      if active > 0 then (r2(key2 \<mapsto> RInt (active - 1)), Returned 1)
                      else (r2, Returned 1)
                  | Some (RStr s) \<Rightarrow>
                      if luaPositive s then (r2, ScriptError) else (r2, Returned 1))
         else (r1, Returned 1))"

text \<open>
  \<open>releaseRenderLock({documentId, printJobId})\<close> starts with
  \<open>const redis = getRedisClient()\<close>. The worker module neither defines nor imports
  \<open>getRedisClient\<close>, so as the module stands the call throws a \<open>ReferenceError\<close>
  (\<open>NotDefined\<close>); the other two cases are what the function does once the name is
  bound: no client (Redis unavailable), or a client. The call of \<open>getRedisClient\<close> is
  outside the \<open>try\<close>; an error of the script is caught and ignored. The result is the
  store after the call and the message of the error thrown, if any.
\<close>

datatype clientLookup = NotDefined | NoClient | Client

definition releaseRenderLock ::
  "(string \<Rightarrow> bool) \<Rightarrow> clientLookup \<Rightarrow> string \<Rightarrow> string \<Rightarrow> redis \<Rightarrow> redis \<times> string option" where
  "releaseRenderLock luaPositive redisClient documentId printJobId r =
     (case redisClient of
        NotDefined \<Rightarrow> (r, Some ''getRedisClient is not defined'')
      | NoClient \<Rightarrow> (r, None)
      | Client \<Rightarrow>
          if documentId = [] \<or> printJobId = [] then (r, None)
          else (case RELEASE_RENDER_LOCK_LUA luaPositive (lockKey documentId) activeKey
                       (memberKey printJobId) printJobId r of
                  (r', Returned n) \<Rightarrow> (r', None)
                | (r', ScriptError) \<Rightarrow> (r', None)))"

text \<open>The shared active counter as a number (\<open>0\<close> when the key is missing).\<close>

definition activeCount :: "redis \<Rightarrow> int option" where
  "activeCount r = (case r activeKey of None \<Rightarrow> Some 0 | Some (RInt n) \<Rightarrow> Some n | Some (RStr s) \<Rightarrow> None)"

text \<open>A sample store: job \<open>job1\<close> holds the lock of \<open>doc1\<close> and is the one active member.\<close>

definition sampleStore :: redis where
  "sampleStore = [lockKey ''doc1'' \<mapsto> RStr ''job1'', activeKey \<mapsto> RInt 1, memberKey ''job1'' \<mapsto> RStr ''1'']"

section \<open>Payload signing (stableStringify, signJobPayload, verifyJobPayload)\<close>

text \<open>
  The JavaScript values a payload is built from. An object is the list of its own
  enumerable properties in insertion order (keys distinct); strings are byte strings.
\<close>

datatype jsvalue =
    JUndefined
  | JNull
  | JBool bool
  | JNumber int
  | JString string
  | JArray "jsvalue list"
  | JObject "(string \<times> jsvalue) list"

text \<open>
  \<open>JSON.stringify\<close> on a string: the string in double quotes, with the quote, the
  backslash and the control characters escaped.
\<close>

definition hex_digit :: "nat \<Rightarrow> char" where
  "hex_digit d = ''0123456789abcdef'' ! (d mod 16)"

definition json_escape :: "char \<Rightarrow> string" where
  "json_escape c =
     (let n = (of_char c :: nat)
      in if n = 34 then [CHR 0x5C, CHR 0x22]
         else if n = 92 then [CHR 0x5C, CHR 0x5C]
         else if n = 8 then [CHR 0x5C, CHR ''b'']
         else if n = 12 then [CHR 0x5C, CHR ''f'']
         else if n = 10 then [CHR 0x5C, CHR ''n'']
         else if n = 13 then [CHR 0x5C, CHR ''r'']
         else if n = 9 then [CHR 0x5C, CHR ''t'']
         else if n < 32 then [CHR 0x5C, CHR ''u'', CHR ''0'', CHR ''0'', hex_digit (n div 16), hex_digit (n mod 16)]
         else [c])"

definition json_quote :: "string \<Rightarrow> string" where
  "json_quote s = CHR 0x22 # concat (map json_escape s) @ [CHR 0x22]"

text \<open>\<open>Array.prototype.join\<close> on strings.\<close>

fun join :: "string \<Rightarrow> string list \<Rightarrow> string" where
  "join sep [] = []"
| "join sep [x] = x"
| "join sep (x # y # ys) = x @ sep @ join sep (y # ys)"

text \<open>
  \<open>stableStringify(value)\<close>; \<open>None\<close> is the JavaScript value \<open>undefined\<close>, which
  \<open>JSON.stringify(undefined)\<close> returns. \<open>join\<close> turns an \<open>undefined\<close> element of an
  array into the empty string; the default \<open>sort()\<close> orders the keys as strings.
\<close>

fun stableStringify :: "jsvalue \<Rightarrow> string option" where
  "stableStringify JUndefined = None"
| "stableStringify JNull = Some ''null''"
| "stableStringify (JBool b) = Some (if b then ''true'' else ''false'')"
| "stableStringify (JNumber n) = Some (js_String n)"
| "stableStringify (JString s) = Some (json_quote s)"
| "stableStringify (JArray vs) =
     Some (''['' @ join '','' (map (\<lambda>v. case stableStringify v of None \<Rightarrow> [] | Some s \<Rightarrow> s) vs) @ '']'')"
| "stableStringify (JObject kvs) =
     Some (''{'' @ join '',''
             (map (\<lambda>(k, v). json_quote k @ '':'' @ (case stableStringify v of None \<Rightarrow> ''undefined'' | Some s \<Rightarrow> s))
                (sort_key fst (filter (\<lambda>(k, v). v \<noteq> JUndefined) kvs))) @ ''}'')"

text \<open>Truthiness of a value, and the property read \<open>payload.name\<close>.\<close>

definition truthy :: "jsvalue \<Rightarrow> bool" where
  "truthy v =
     (case v of JUndefined \<Rightarrow> False | JNull \<Rightarrow> False | JBool b \<Rightarrow> b | JNumber n \<Rightarrow> n \<noteq> 0
      | JString s \<Rightarrow> s \<noteq> [] | JArray vs \<Rightarrow> True | JObject kvs \<Rightarrow> True)"

definition getProp :: "jsvalue \<Rightarrow> string \<Rightarrow> jsvalue" where
  "getProp v name =
     (case v of JObject kvs \<Rightarrow> (case map_of kvs name of Some x \<Rightarrow> x | None \<Rightarrow> JUndefined)
      | _ \<Rightarrow> JUndefined)"

definition isObjectValue :: "jsvalue \<Rightarrow> bool" where
  "isObjectValue v = (case v of JArray vs \<Rightarrow> True | JObject kvs \<Rightarrow> True | _ \<Rightarrow> False)"

definition hasForbiddenFields :: "jsvalue \<Rightarrow> bool" where
  "hasForbiddenFields payload =
     (truthy (getProp payload ''pages'') \<or> truthy (getProp payload ''seriesConfig'')
      \<or> truthy (getProp payload ''placementRules''))"

text \<open>
  \<open>signJobPayload(payload)\<close>. The keyed hash of Node's \<open>crypto\<close> module,
  \<open>createHmac('sha256', secret).update(s).digest('hex')\<close>, is the parameter \<open>hmacHex\<close>;
  \<open>secret\<close> is the environment variable \<open>JOB_PAYLOAD_HMAC_SECRET\<close>, \<open>None\<close> when unset.
  The result is the signature or the message of the error thrown.
\<close>

definition signJobPayload :: "(string \<Rightarrow> string \<Rightarrow> string) \<Rightarrow> string option \<Rightarrow> jsvalue \<Rightarrow> string + string" where
  "signJobPayload hmacHex secret payload =
     (if \<not> isObjectValue payload then Inl ''HMAC payload must be a plain object''
      else if hasForbiddenFields payload then Inl ''HMAC payload must be immutable only''
      else (case secret of
              None \<Rightarrow> Inl ''JOB_PAYLOAD_HMAC_SECRET not configured''
            | Some key \<Rightarrow>
                if key = [] then Inl ''JOB_PAYLOAD_HMAC_SECRET not configured''
                else (case stableStringify payload of
                        None \<Rightarrow> Inl ''The data argument must be of type string''
                      | Some payloadString \<Rightarrow> Inr (hmacHex key payloadString))))"

text \<open>\<open>crypto.timingSafeEqual\<close> on two buffers of the same length.\<close>

definition timingSafeEqual :: "string \<Rightarrow> string \<Rightarrow> bool" where
  "timingSafeEqual a b = (a = b)"

text \<open>
  \<open>verifyJobPayload(payload, expectedHmac)\<close>; \<open>expectedHmac = None\<close> is a value that is
  not a string. Before it signs, the function writes a debug log for which it evaluates
  \<open>stableStringify(payload)\<close>; on the values of the model (no \<open>BigInt\<close>, no cycle) that
  call returns, so the log is a step without effect on the result.
\<close>

definition verifyJobPayload ::
  "(string \<Rightarrow> string \<Rightarrow> string) \<Rightarrow> string option \<Rightarrow> jsvalue \<Rightarrow> string option \<Rightarrow> string + bool" where
  "verifyJobPayload hmacHex secret payload expectedHmac =
     (case expectedHmac of
        None \<Rightarrow> Inr False
      | Some expected \<Rightarrow>
          if expected = [] then Inr False
          else (let stable = stableStringify payload
                in case signJobPayload hmacHex secret payload of
                     Inl err \<Rightarrow> Inl err
                   | Inr actualHmac \<Rightarrow>
                       if length actualHmac \<noteq> length expected then Inr False
                       else Inr (timingSafeEqual actualHmac expected)))"

text \<open>
  The signature stored with a job when it is created (\<open>payloadHmac\<close>): what
  \<open>signJobPayload\<close> returns for its payload, none when it throws.
\<close>

definition signatureOf :: "(string \<Rightarrow> string \<Rightarrow> string) \<Rightarrow> string option \<Rightarrow> jsvalue \<Rightarrow> string option" where
  "signatureOf hmacHex secret payload =
     (case signJobPayload hmacHex secret payload of Inr sig \<Rightarrow> Some sig | Inl err \<Rightarrow> None)"

text \<open>
  A stand-in for the keyed hash, for evaluating the model: it has no collisions, as an
  ideal message authentication code would.
\<close>

definition sampleMac :: "string \<Rightarrow> string \<Rightarrow> string" where
  "sampleMac key message = ''mac('' @ key @ '')'' @ message"

text \<open>A payload all of whose fields are strings, as the signed triple is.\<close>

definition stringFields :: "(string \<times> jsvalue) list \<Rightarrow> bool" where
  "stringFields kvs = list_all (\<lambda>(k, v). case v of JString s \<Rightarrow> True | _ \<Rightarrow> False) kvs"

text \<open>
  A decoder for the head of an escaped string, used to show that quoting can be read back
  in one way only: \<open>hex_value\<close> reads a hexadecimal digit, \<open>json_unescape_head\<close> the
  first escaped character (and fails on the closing quote).
\<close>

definition hex_value :: "char \<Rightarrow> nat" where
  "hex_value c = length (takeWhile (\<lambda>d. d \<noteq> c) ''0123456789abcdef'')"

definition json_unescape_head :: "string \<Rightarrow> (char \<times> string) option" where
  "json_unescape_head xs =
     (case xs of
        [] \<Rightarrow> None
      | x # r \<Rightarrow>
          if x = CHR 0x22 then None
          else if x \<noteq> CHR 0x5C then Some (x, r)
          else (case r of
                  [] \<Rightarrow> None
                | y # r2 \<Rightarrow>
                    if y = CHR 0x22 then Some (CHR 0x22, r2)
                    else if y = CHR 0x5C then Some (CHR 0x5C, r2)
                    else if y = CHR ''b'' then Some (CHR 0x08, r2)
                    else if y = CHR ''f'' then Some (CHR 0x0C, r2)
                    else if y = CHR ''n'' then Some (CHR 0x0A, r2)
                    else if y = CHR ''r'' then Some (CHR 0x0D, r2)
                    else if y = CHR ''t'' then Some (CHR 0x09, r2)
                    else (case r2 of
                            a # b # h1 # h2 # r3 \<Rightarrow> Some (char_of (16 * hex_value h1 + hex_value h2), r3)
                          | _ \<Rightarrow> None)))"

text \<open>An entry \<open>"key":"value"\<close> of a serialized object whose values are strings.\<close>

definition entryString :: "string \<times> string \<Rightarrow> string" where
  "entryString e = json_quote (fst e) @ '':'' @ json_quote (snd e)"

text \<open>The string of a string value, and the entries of a string-valued object.\<close>

definition strOf :: "jsvalue \<Rightarrow> string" where
  "strOf v = (case v of JString s \<Rightarrow> s | _ \<Rightarrow> [])"

definition flatEntries :: "(string \<times> jsvalue) list \<Rightarrow> (string \<times> string) list" where
  "flatEntries kvs = map (\<lambda>e. (fst e, strOf (snd e))) kvs"

text \<open>A sample signed payload: the triple of job id, output key and creation time.\<close>

definition samplePayload :: "(string \<times> jsvalue) list" where
  "samplePayload = [(''jobId'', JString ''65a1b2c3d4e5f60718293a4b''),
                    (''outputKey'', JString ''documents/final/job-1.pdf''),
                    (''createdAt'', JString ''2024-01-01T00:00:00.000Z'')]"

section \<open>The print job record and the queue worker (processMerge, the failed handler)\<close>

datatype jobStatus = CREATED | BATCH_RUNNING | MERGE_RUNNING | READY | FAILED

record auditEntry =
  au_event :: string
  au_details :: string

record lifecycleEntry =
  lc_from :: jobStatus
  lc_to :: jobStatus
  lc_at :: nat
  lc_source :: string

record jobOutput =
  out_key :: string
  out_url :: string
  out_expiresAt :: nat

text \<open>
  The persisted job document. String fields of the render specification that may be
  absent are options; \<open>createdAt\<close> is the ISO string of the creation date, \<open>None\<close> when
  the field is not a date; times are numbers.
\<close>

record jobDoc =
  jd_id :: string
  jd_traceId :: "string option"
  jd_sourcePdfKey :: string
  md_documentId :: "string option"
  md_sourcePdfKey :: "string option"
  md_outputKey :: "string option"
  hp_outputKey :: "string option"
  payloadHmac :: "string option"
  status :: jobStatus
  readyAt :: "nat option"
  batchFinishedAt :: "nat option"
  mergeStartedAt :: "nat option"
  mergeFinishedAt :: "nat option"
  errorAt :: "nat option"
  errorCode :: "string option"
  progress :: int
  totalPages :: int
  outputInfo :: "jobOutput option"
  errorInfo :: "string option"
  audit :: "auditEntry list"
  lifecycleHistory :: "lifecycleEntry list"
  createdAt :: "string option"

text \<open>
  The world the worker acts on: the job collection by canonical id, the objects uploaded
  to the object store (key and bytes, in order), and the coordination store.
\<close>

record world =
  db :: "string \<rightharpoonup> jobDoc"
  uploads :: "(string \<times> string) list"
  store :: redis

text \<open>A queue work item: its name, the job id in its data and in its parent's data, and its attempts.\<close>

record queueJob =
  job_name :: string
  data_printJobId :: "string option"
  parent_printJobId :: "string option"
  opts_attempts :: nat
  attemptsMade :: nat

text \<open>
  What a run takes from outside the worker: the keyed hash and its secret; Mongoose's
  cast of an id to the canonical id string (on the ids it can cast; an id it cannot is
  outside the model); the outcome of rendering and saving the
  document (an error message or the bytes) and of the upload (an error message, or
  none); what \<open>getRedisClient\<close> does; the clock; and what other actors (other workers, the status
  endpoint) write to the world at the suspension points between the worker's own reads
  and writes: \<open>others1\<close> between the merge worker's read of the job and its transition to
  \<open>MERGE_RUNNING\<close>, \<open>others2\<close> while it renders and uploads, \<open>others3\<close> between the failed
  handler's read and its save. Database calls themselves are taken to succeed.
\<close>

record env =
  hmacHex :: "string \<Rightarrow> string \<Rightarrow> string"
  secret :: "string option"
  castId :: "string \<Rightarrow> string"
  renderResult :: "string + string"
  uploadError :: "string option"
  getRedisClient :: clientLookup
  luaPositive :: "string \<Rightarrow> bool"
  now :: nat
  expiresAt :: nat
  others1 :: "world \<Rightarrow> world"
  others2 :: "world \<Rightarrow> world"
  others3 :: "world \<Rightarrow> world"

text \<open>String helpers: \<open>trim\<close>, \<open>startsWith\<close>, and a case-insensitive regular expression that is a plain word.\<close>

definition is_ws :: "char \<Rightarrow> bool" where
  "is_ws c = (c \<in> set [CHR '' '', CHR 0x09, CHR 0x0A, CHR 0x0B, CHR 0x0C, CHR 0x0D])"

definition js_trim :: "string \<Rightarrow> string" where
  "js_trim s = rev (dropWhile is_ws (rev (dropWhile is_ws s)))"

fun startsWith :: "string \<Rightarrow> string \<Rightarrow> bool" where
  "startsWith s [] = True"
| "startsWith [] (p # ps) = False"
| "startsWith (x # xs) (p # ps) = (x = p \<and> startsWith xs ps)"

fun includes_str :: "string \<Rightarrow> string \<Rightarrow> bool" where
  "includes_str [] p = (p = [])"
| "includes_str (x # xs) p = (startsWith (x # xs) p \<or> includes_str xs p)"

definition to_lower :: "char \<Rightarrow> char" where
  "to_lower c = (let n = (of_char c :: nat) in if 65 \<le> n \<and> n \<le> 90 then char_of (n + 32) else c)"

definition test_ci :: "string \<Rightarrow> string \<Rightarrow> bool" where
  "test_ci pattern msg = includes_str (map to_lower msg) (map to_lower pattern)"

text \<open>\<open>mapErrorCode(err, fallback)\<close> on the message of the error (\<open>None\<close>: no message).\<close>

definition mapErrorCode :: "string option \<Rightarrow> string \<Rightarrow> string" where
  "mapErrorCode message fallback =
     (let msg = (case message of Some m \<Rightarrow> m | None \<Rightarrow> [])
      in if msg = ''SVG_NORMALIZE_TIMEOUT'' then ''TIMEOUT''
         else if test_ci ''hmac'' msg then ''HMAC_FAILED''
         else if test_ci ''inkscape'' msg then ''INKSCAPE_FAIL''
         else if test_ci ''merge'' msg then ''MERGE_FAIL''
         else if test_ci ''vector metadata'' msg then ''INVALID_INPUT''
         else if test_ci ''SVG too complex'' msg \<or> msg = ''SVG_TOO_COMPLEX'' then ''SVG_TOO_COMPLEX''
         else if test_ci ''SECURITY VIOLATION'' msg then ''INVALID_OUTPUT''
         else if test_ci ''timeout'' msg then ''TIMEOUT''
         else (if fallback = [] then ''UNKNOWN'' else fallback))"

text \<open>A string option as a JavaScript condition: the trimmed string when it is a non-empty string.\<close>

definition trimmedNonEmpty :: "string option \<Rightarrow> string option" where
  "trimmedNonEmpty v = (case v of None \<Rightarrow> None | Some s \<Rightarrow> if js_trim s = [] then None else Some (js_trim s))"

definition firstTruthy :: "string option list \<Rightarrow> string" where
  "firstTruthy vs = (case filter (\<lambda>v. v \<noteq> None \<and> v \<noteq> Some []) vs of Some s # rest \<Rightarrow> s | _ \<Rightarrow> [])"

definition getDocumentIdFromJobDoc :: "jobDoc \<Rightarrow> string" where
  "getDocumentIdFromJobDoc jobDoc =
     js_trim (firstTruthy [md_documentId jobDoc, md_sourcePdfKey jobDoc, Some (jd_sourcePdfKey jobDoc)])"

text \<open>
  \<open>getStableHmacPayload(jobDoc)\<close>: the signed triple. The virtual \<open>outputKey\<close> of the
  document is the output key of its stored payload.
\<close>

definition getStableHmacPayload :: "jobDoc \<Rightarrow> string + jsvalue" where
  "getStableHmacPayload jobDoc =
     (case filter (\<lambda>v. v \<noteq> None)
             [trimmedNonEmpty (md_outputKey jobDoc), trimmedNonEmpty (hp_outputKey jobDoc),
              trimmedNonEmpty (hp_outputKey jobDoc)] of
        Some outputKey # rest \<Rightarrow>
          (case createdAt jobDoc of
             None \<Rightarrow> Inl ''createdAt missing on job''
           | Some isoDate \<Rightarrow>
               Inr (JObject [(''jobId'', JString (jd_id jobDoc)), (''outputKey'', JString outputKey),
                             (''createdAt'', JString isoDate)]))
      | _ \<Rightarrow> Inl ''outputKey missing on job'')"

text \<open>
  The database operations. \<open>findById\<close> reads the current document.
  \<open>findOneAndUpdate\<close> and \<open>updateOne\<close> with the filter \<open>{_id, status}\<close> are one atomic
  conditional write: the update is applied only if the persisted status is the expected
  one. \<open>save\<close> on a loaded document writes the modified paths by id, whatever the
  persisted status is.
\<close>

definition findById :: "env \<Rightarrow> string \<Rightarrow> world \<Rightarrow> jobDoc option" where
  "findById e rawId w = db w (castId e rawId)"

definition updateIfStatus :: "env \<Rightarrow> string \<Rightarrow> jobStatus \<Rightarrow> (jobDoc \<Rightarrow> jobDoc) \<Rightarrow> world \<Rightarrow> bool \<times> world" where
  "updateIfStatus e rawId expected upd w =
     (case db w (castId e rawId) of
        None \<Rightarrow> (False, w)
      | Some d \<Rightarrow>
          if status d = expected then (True, w\<lparr>db := (db w)(castId e rawId \<mapsto> upd d)\<rparr>)
          else (False, w))"

definition saveModified :: "string \<Rightarrow> (jobDoc \<Rightarrow> jobDoc) \<Rightarrow> world \<Rightarrow> world" where
  "saveModified docId upd w =
     (case db w docId of None \<Rightarrow> w | Some d \<Rightarrow> w\<lparr>db := (db w)(docId \<mapsto> upd d)\<rparr>)"

text \<open>\<open>updateProgress(jobDoc, progress, event, details)\<close> followed by its \<open>save\<close>.\<close>

definition updateProgress :: "string \<Rightarrow> int \<Rightarrow> string \<Rightarrow> string \<Rightarrow> world \<Rightarrow> world" where
  "updateProgress docId p ev details w =
     saveModified docId
       (\<lambda>d. d\<lparr>progress := max 0 (min 100 p),
               audit := audit d @ [\<lparr>au_event = ev, au_details = details\<rparr>]\<rparr>) w"

definition releaseLock :: "env \<Rightarrow> string \<Rightarrow> string \<Rightarrow> world \<Rightarrow> world \<times> string option" where
  "releaseLock e documentId printJobId w =
     (case releaseRenderLock (luaPositive e) (getRedisClient e) documentId printJobId (store w) of
        (r', thrown) \<Rightarrow> (w\<lparr>store := r'\<rparr>, thrown))"

text \<open>
  The end of \<open>processMerge\<close>: \<open>try { ...; await releaseRenderLock(...); return ok }
  catch (e) { await releaseRenderLock(...); throw e }\<close>, given the outcome of the body
  before the release. An error thrown by the release inside \<open>try\<close> is caught like any
  other; one thrown inside \<open>catch\<close> replaces the error being rethrown.
\<close>

definition releaseAndFinish :: "env \<Rightarrow> string \<Rightarrow> string \<Rightarrow> (string + string) \<times> world \<Rightarrow> (string + string) \<times> world" where
  "releaseAndFinish e documentId printJobId outcome =
     (case outcome of
        (Inr key, w) \<Rightarrow>
          (case releaseLock e documentId printJobId w of
             (w1, None) \<Rightarrow> (Inr key, w1)
           | (w1, Some err) \<Rightarrow>
               (case releaseLock e documentId printJobId w1 of
                  (w2, None) \<Rightarrow> (Inl err, w2)
                | (w2, Some err2) \<Rightarrow> (Inl err2, w2)))
      | (Inl err, w) \<Rightarrow>
          (case releaseLock e documentId printJobId w of
             (w1, None) \<Rightarrow> (Inl err, w1)
           | (w1, Some err2) \<Rightarrow> (Inl err2, w1)))"

text \<open>The two transitions of the merge worker, as the updates of their conditional writes.\<close>

definition toMergeRunning :: "env \<Rightarrow> jobStatus \<Rightarrow> jobDoc \<Rightarrow> jobDoc" where
  "toMergeRunning e fromStatus d =
     d\<lparr>status := MERGE_RUNNING, errorCode := None, errorAt := None, readyAt := None,
       batchFinishedAt := (if fromStatus = BATCH_RUNNING then Some (now e) else None),
       mergeStartedAt := Some (now e),
       lifecycleHistory := lifecycleHistory d @
         [\<lparr>lc_from = fromStatus, lc_to = MERGE_RUNNING, lc_at = now e, lc_source = ''merge-worker''\<rparr>]\<rparr>"

definition toReady :: "env \<Rightarrow> string \<Rightarrow> jobDoc \<Rightarrow> jobDoc" where
  "toReady e key d =
     d\<lparr>status := READY, readyAt := Some (now e), mergeFinishedAt := Some (now e),
       errorCode := None, errorAt := None, progress := 100,
       outputInfo := Some \<lparr>out_key = key, out_url = ''url:'' @ key, out_expiresAt = expiresAt e\<rparr>,
       audit := audit d @ [\<lparr>au_event = ''JOB_DONE'', au_details = key\<rparr>,
                           \<lparr>au_event = ''MERGE_TIME'', au_details = ''ms''\<rparr>],
       lifecycleHistory := lifecycleHistory d @
         [\<lparr>lc_from = MERGE_RUNNING, lc_to = READY, lc_at = now e, lc_source = ''merge-worker''\<rparr>]\<rparr>"

definition SECURITY_VIOLATION :: string where
  "SECURITY_VIOLATION = ''SECURITY VIOLATION: Output is not a valid PDF. Vector pipeline broken.''"

definition rootMismatchMessage :: "string \<Rightarrow> string \<Rightarrow> string" where
  "rootMismatchMessage rootPrintJobId jobId =
     ''Root printJobId mismatch: rootPrintJobId='' @ rootPrintJobId @ '' payload.jobId='' @ jobId"

text \<open>
  The body of the \<open>try\<close> block of \<open>processMerge\<close>, after the transition to
  \<open>MERGE_RUNNING\<close>: progress, render, signature check, upload, and the conditional
  transition to \<open>READY\<close>. The result is the final key, or the message of the error thrown.
\<close>

definition mergeBody :: "env \<Rightarrow> string \<Rightarrow> jobDoc \<Rightarrow> world \<Rightarrow> (string + string) \<times> world" where
  "mergeBody e rootPrintJobId jobDoc w =
     (let w1 = updateProgress (jd_id jobDoc) (max (progress jobDoc) 80) ''MERGE_JOB_STARTED'' [] w;
          progress1 = max 0 (min 100 (max (progress jobDoc) 80))
      in case renderResult e of
           Inl err \<Rightarrow> (Inl err, w1)
         | Inr bytes \<Rightarrow>
             if \<not> startsWith (take 5 bytes) ''%PDF-'' then (Inl SECURITY_VIOLATION, w1)
             else (let w2 = updateProgress (jd_id jobDoc) (max progress1 95) ''FINAL_RENDER_DONE'' ''totalPages'' w1;
                       finalKey = (case trimmedNonEmpty (hp_outputKey jobDoc) of
                                     Some k \<Rightarrow> k
                                   | None \<Rightarrow> ''documents/final/'' @ rootPrintJobId @ ''.pdf'')
                   in case uploadError e of
                        Some err \<Rightarrow> (Inl err, w2)
                      | None \<Rightarrow>
                          (let w3 = others2 e (w2\<lparr>uploads := uploads w2 @ [(finalKey, bytes)]\<rparr>)
                           in case updateIfStatus e rootPrintJobId MERGE_RUNNING (toReady e finalKey) w3 of
                                (False, w4) \<Rightarrow> (Inl ''Invalid lifecycle transition'', w4)
                              | (True, w4) \<Rightarrow> (Inr finalKey, w4))))"

text \<open>
  \<open>processMerge(job)\<close>: the result (\<open>Inl\<close> the message of the error thrown, \<open>Inr\<close> the
  key of the published artifact) and the world after the call.
\<close>

definition processMerge :: "env \<Rightarrow> queueJob \<Rightarrow> world \<Rightarrow> (string + string) \<times> world" where
  "processMerge e job w =
     (case (case data_printJobId job of Some i \<Rightarrow> Some i | None \<Rightarrow> parent_printJobId job) of
        None \<Rightarrow> (Inl ''Missing root printJobId'', w)
      | Some rootPrintJobId \<Rightarrow>
          if rootPrintJobId = [] then (Inl ''Missing root printJobId'', w)
          else (case findById e rootPrintJobId w of
             None \<Rightarrow> (Inl ''PrintJob not found'', w)
           | Some jobDoc \<Rightarrow>
               (let documentId = getDocumentIdFromJobDoc jobDoc
                in if status jobDoc \<noteq> BATCH_RUNNING \<and> status jobDoc \<noteq> CREATED
                   then (Inl ''Invalid lifecycle transition'', w)
                   else if payloadHmac jobDoc = None \<or> payloadHmac jobDoc = Some []
                   then (Inl ''payloadHmac missing on job'', w)
                   else (case getStableHmacPayload jobDoc of
                      Inl err \<Rightarrow> (Inl err, w)
                    | Inr payload \<Rightarrow>
                        if rootPrintJobId \<noteq> jd_id jobDoc
                        then (Inl (rootMismatchMessage rootPrintJobId (jd_id jobDoc)), w)
                        else (case verifyJobPayload (hmacHex e) (secret e) payload (payloadHmac jobDoc) of
                           Inl err \<Rightarrow> (Inl err, w)
                         | Inr False \<Rightarrow> (Inl ''HMAC verification failed'', w)
                         | Inr True \<Rightarrow>
                             (let fromStatus = (if status jobDoc = CREATED then CREATED else BATCH_RUNNING)
                              in case updateIfStatus e rootPrintJobId fromStatus (toMergeRunning e fromStatus)
                                        (others1 e w) of
                                   (False, w1) \<Rightarrow> (Inl ''Invalid lifecycle transition'', w1)
                                 | (True, w1) \<Rightarrow>
                                     releaseAndFinish e documentId rootPrintJobId
                                       (mergeBody e rootPrintJobId jobDoc w1)))))))"

text \<open>
  The worker's \<open>failed\<close> handler: what it reads and decides, the \<open>save\<close> of the
  loaded document with \<open>status = 'FAILED'\<close>, and the release of the lock on a final
  failure. The result is the world after the handler and the error it threw, if any.
\<close>

definition failedUpdate :: "env \<Rightarrow> queueJob \<Rightarrow> string \<Rightarrow> jobStatus \<Rightarrow> jobDoc \<Rightarrow> jobDoc" where
  "failedUpdate e job errMsg fromStatus d =
     d\<lparr>status := FAILED, errorAt := Some (now e),
       errorCode := Some (mapErrorCode (Some errMsg) ''UNKNOWN''),
       errorInfo := Some (if errMsg = [] then ''Job failed'' else errMsg),
       audit := audit d @ [\<lparr>au_event = ''JOB_FAILED'', au_details = job_name job\<rparr>],
       lifecycleHistory := lifecycleHistory d @
         (if attemptsMade job \<ge> (if opts_attempts job = 0 then 1 else opts_attempts job)
          then [\<lparr>lc_from = fromStatus, lc_to = FAILED, lc_at = now e,
                 lc_source = (if job_name job = ''merge'' then ''merge-worker'' else ''batch-worker'')\<rparr>]
          else [])\<rparr>"

definition failedHandler :: "env \<Rightarrow> queueJob \<Rightarrow> string \<Rightarrow> world \<Rightarrow> world \<times> string option" where
  "failedHandler e job errMsg w =
     (case data_printJobId job of
        None \<Rightarrow> (w, None)
      | Some printJobId \<Rightarrow>
          if printJobId = [] then (w, None)
          else if errMsg = ''Invalid lifecycle transition'' then (w, None)
          else (case findById e printJobId w of
                  None \<Rightarrow> (w, None)
                | Some jobDoc \<Rightarrow>
                    if status jobDoc = READY then (w, None)
                    else (let w1 = saveModified (jd_id jobDoc)
                                     (failedUpdate e job errMsg (status jobDoc)) (others3 e w)
                          in if attemptsMade job \<ge> (if opts_attempts job = 0 then 1 else opts_attempts job)
                             then releaseLock e (getDocumentIdFromJobDoc jobDoc) printJobId w1
                             else (w1, None))))"

text \<open>
  A merge work item run by the worker: the processor, and on a thrown error the queue's
  \<open>failed\<close> event with the attempt counted.
\<close>

definition runMergeJob :: "env \<Rightarrow> queueJob \<Rightarrow> world \<Rightarrow> (string + string) \<times> world" where
  "runMergeJob e job w =
     (case processMerge e job w of
        (Inl errMsg, w1) \<Rightarrow>
          (Inl errMsg, fst (failedHandler e (job\<lparr>attemptsMade := attemptsMade job + 1\<rparr>) errMsg w1))
      | (Inr key, w1) \<Rightarrow> (Inr key, w1))"

text \<open>
  A sample run: a job document signed with the stand-in keyed hash, an environment
  whose renderer returns bytes that are not a PDF, in which no other actor writes and
  \<open>getRedisClient\<close> is not defined (as in the worker module),
  a world holding the job, and a merge work item for a given id.
\<close>

definition sampleSignature :: "string option" where
  "sampleSignature = signatureOf sampleMac (Some ''k'') (JObject samplePayload)"

definition sampleJobDoc :: jobDoc where
  "sampleJobDoc =
     \<lparr>jd_id = ''65a1b2c3d4e5f60718293a4b'', jd_traceId = None, jd_sourcePdfKey = ''documents/src.pdf'',
      md_documentId = Some ''doc1'', md_sourcePdfKey = None,
      md_outputKey = Some ''documents/final/job-1.pdf'', hp_outputKey = Some ''documents/final/job-1.pdf'',
      payloadHmac = sampleSignature, status = CREATED, readyAt = None, batchFinishedAt = None,
      mergeStartedAt = None, mergeFinishedAt = None, errorAt = None, errorCode = None,
      progress = 0, totalPages = 1, outputInfo = None, errorInfo = None, audit = [],
      lifecycleHistory = [], createdAt = Some ''2024-01-01T00:00:00.000Z''\<rparr>"

definition sampleEnv :: env where
  "sampleEnv =
     \<lparr>hmacHex = sampleMac, secret = Some ''k'', castId = map to_lower,
      renderResult = Inr ''<html>'', uploadError = None, getRedisClient = NotDefined,
      luaPositive = (\<lambda>s. False), now = 1000, expiresAt = 2000,
      others1 = id, others2 = id, others3 = id\<rparr>"

definition sampleWorld :: world where
  "sampleWorld = \<lparr>db = [''65a1b2c3d4e5f60718293a4b'' \<mapsto> sampleJobDoc], uploads = [], store = sampleStore\<rparr>"

definition sampleMergeJob :: "string \<Rightarrow> queueJob" where
  "sampleMergeJob printJobId =
     \<lparr>job_name = ''merge'', data_printJobId = Some printJobId, parent_printJobId = None,
      opts_attempts = 1, attemptsMade = 0\<rparr>"

text \<open>
  A race: the job is in \<open>MERGE_RUNNING\<close> with its artifact uploaded; a \<open>failed\<close> event
  of the queue arrives for its merge work item (the queue gave the item up as stalled)
  while the merge worker is about to publish; between the handler's read and its save
  the merge worker's conditional update to \<open>READY\<close> goes through.
\<close>

definition sampleRunningWorld :: world where
  "sampleRunningWorld =
     \<lparr>db = [''65a1b2c3d4e5f60718293a4b'' \<mapsto> sampleJobDoc\<lparr>status := MERGE_RUNNING\<rparr>],
      uploads = [(''documents/final/job-1.pdf'', ''%PDF-1.7 ...'')], store = sampleStore\<rparr>"

definition raceEnv :: env where
  "raceEnv = sampleEnv\<lparr>others3 :=
     (\<lambda>w. snd (updateIfStatus sampleEnv ''65a1b2c3d4e5f60718293a4b'' MERGE_RUNNING
                  (toReady sampleEnv ''documents/final/job-1.pdf'') w))\<rparr>"

definition stalledJob :: queueJob where
  "stalledJob = \<lparr>job_name = ''merge'', data_printJobId = Some ''65a1b2c3d4e5f60718293a4b'',
                  parent_printJobId = None, opts_attempts = 1, attemptsMade = 1\<rparr>"

section \<open>Properties of the rounding to doubles\<close>

lemma bitlen_0 [simp]: "bitlen 0 = 0"
  by (simp add: bitlen.simps)

lemma bitlen_pos: "0 < n \<Longrightarrow> bitlen n = Suc (bitlen (n div 2))"
  by (subst bitlen.simps) simp

lemma bitlen_bounds: "0 < n \<Longrightarrow> 2 ^ (bitlen n - 1) \<le> n \<and> n < 2 ^ bitlen n"
proof (induction n rule: bitlen.induct)
  case (1 n)
  show ?case
  proof (cases "n div 2 = 0")
    case True
    with 1(2) have "n = 1" by (simp add: div_eq_0_iff) 
    then show ?thesis by (simp add: bitlen_pos)
  next
    case False
    then have p: "0 < n div 2" by simp
    from 1(1) [OF _ p] 1(2)
    have ih: "2 ^ (bitlen (n div 2) - 1) \<le> n div 2" "n div 2 < 2 ^ bitlen (n div 2)" by auto
    have b: "0 < bitlen (n div 2)" using p by (simp add: bitlen_pos)
    have e: "bitlen n = Suc (bitlen (n div 2))" using 1(2) by (rule bitlen_pos)
    have "(2::nat) ^ bitlen (n div 2) = 2 * 2 ^ (bitlen (n div 2) - 1)"
      using b by (cases "bitlen (n div 2)") simp_all
    then have lo: "2 ^ bitlen (n div 2) \<le> n" using ih(1) by linarith
    have hi: "n < 2 * 2 ^ bitlen (n div 2)" using ih(2) by linarith
    show ?thesis using lo hi by (simp add: e)
  qed
qed

lemma pow2_pos [simp]: "0 < pow2 e"
  by (simp add: pow2_def power_int_def)

lemma pow2_nat: "pow2 (int n) = 2 ^ n"
  by (simp add: pow2_def)

lemma pow2_neg_nat: "pow2 (- int n) = 1 / 2 ^ n"
  by (simp add: pow2_def power_int_minus_divide)

lemma pow2_add: "pow2 (a + b) = pow2 a * pow2 b"
  by (simp add: pow2_def power_int_add)

lemma pow2_diff: "pow2 (a - b) = pow2 a / pow2 b"
  by (simp add: pow2_def power_int_diff)

lemma pow2_mono: "a \<le> b \<Longrightarrow> pow2 a \<le> pow2 b"
  by (simp add: pow2_def power_int_increasing)

lemma pow2_strict_mono: "a < b \<Longrightarrow> pow2 a < pow2 b"
  by (simp add: pow2_def power_int_strict_increasing)

lemma pow2_le_iff: "pow2 a \<le> pow2 b \<longleftrightarrow> a \<le> b"
  using pow2_mono [of a b] pow2_strict_mono [of b a] by (cases "a \<le> b") auto

lemma pow2_less_iff: "pow2 a < pow2 b \<longleftrightarrow> a < b"
  using pow2_strict_mono [of a b] pow2_mono [of b a] by (cases "a < b") auto

lemma expo_bounds:
  assumes "0 < x"
  shows "pow2 (expo x) \<le> x" and "x < pow2 (expo x + 1)"
proof -
  have "pow2 (expo x) \<le> x \<and> x < pow2 (expo x + 1)"
  proof (cases "1 \<le> x")
    case True
    define m where "m = nat \<lfloor>x\<rfloor>"
    have m: "0 < m" using True by (simp add: m_def)
    have mx: "of_nat m \<le> x" "x < of_nat m + 1"
    proof -
      have f: "(of_nat m :: rat) = of_int \<lfloor>x\<rfloor>" using True by (simp add: m_def)
      show "of_nat m \<le> x" unfolding f by linarith
      show "x < of_nat m + 1" unfolding f by linarith
    qed
    from bitlen_bounds [OF m] have b: "2 ^ (bitlen m - 1) \<le> m" "m < 2 ^ bitlen m" by auto
    have bp: "0 < bitlen m" using m by (simp add: bitlen_pos)
    have e: "expo x = int (bitlen m - 1)" using True bp by (simp add: expo_def m_def)
    have e1: "expo x + 1 = int (bitlen m)" using e bp by simp
    have "(2::rat) ^ (bitlen m - 1) \<le> of_nat m"
      using b(1) by (metis of_nat_le_iff of_nat_numeral of_nat_power)
    then have lo: "pow2 (expo x) \<le> x" unfolding e pow2_nat using mx(1) by linarith
    have "m + 1 \<le> 2 ^ bitlen m" using b(2) by simp
    then have "(of_nat (m + 1) :: rat) \<le> of_nat (2 ^ bitlen m)" by (simp only: of_nat_le_iff)
    then have "(of_nat m :: rat) + 1 \<le> 2 ^ bitlen m" by simp
    then have hi: "x < pow2 (expo x + 1)" unfolding e1 pow2_nat using mx(2) by linarith
    show ?thesis using lo hi by simp
  next
    case False
    define y where "y = 1 / x"
    have y1: "1 < y" using False assms by (simp add: y_def)
    define m where "m = nat (\<lceil>y\<rceil> - 1)"
    have c: "1 < \<lceil>y\<rceil>" using y1 by (simp add: less_ceiling_iff)
    have m: "0 < m" using c by (simp add: m_def)
    have my: "of_nat m < y" "y \<le> of_nat m + 1"
    proof -
      have "of_int (\<lceil>y\<rceil> - 1) < y" by linarith
      moreover have "(of_nat m :: rat) = of_int (\<lceil>y\<rceil> - 1)" using c by (simp add: m_def)
      ultimately show "of_nat m < y" by simp
      have "y \<le> of_int \<lceil>y\<rceil>" by linarith
      moreover have "(of_nat m :: rat) + 1 = of_int \<lceil>y\<rceil>" using c by (simp add: m_def)
      ultimately show "y \<le> of_nat m + 1" by simp
    qed
    from bitlen_bounds [OF m] have b: "2 ^ (bitlen m - 1) \<le> m" "m < 2 ^ bitlen m" by auto
    have bp: "0 < bitlen m" using m by (simp add: bitlen_pos)
    have e: "expo x = - int (bitlen m)" using False by (simp add: expo_def m_def y_def)
    have e1: "expo x + 1 = - int (bitlen m - 1)" using e bp by simp
    have "m + 1 \<le> 2 ^ bitlen m" using b(2) by simp
    then have "(of_nat (m + 1) :: rat) \<le> of_nat (2 ^ bitlen m)" by (simp only: of_nat_le_iff)
    then have "y \<le> 2 ^ bitlen m" using my(2) by simp
    then have "1 / x \<le> 2 ^ bitlen m" by (simp add: y_def)
    then have "1 \<le> 2 ^ bitlen m * x" using assms by (simp add: field_simps)
    then have lo: "pow2 (expo x) \<le> x" unfolding e pow2_neg_nat by (simp add: field_simps)
    have "(2::rat) ^ (bitlen m - 1) \<le> of_nat m"
      using b(1) by (metis of_nat_le_iff of_nat_numeral of_nat_power)
    then have "2 ^ (bitlen m - 1) < y" using my(1) by linarith
    then have "2 ^ (bitlen m - 1) < 1 / x" by (simp add: y_def)
    then have "2 ^ (bitlen m - 1) * x < 1" using assms by (simp add: field_simps)
    then have hi: "x < pow2 (expo x + 1)" unfolding e1 pow2_neg_nat by (simp add: field_simps)
    show ?thesis using lo hi by simp
  qed
  then show "pow2 (expo x) \<le> x" and "x < pow2 (expo x + 1)" by auto
qed

lemma expo_unique:
  assumes "0 < x" and "pow2 e \<le> x" and "x < pow2 (e + 1)"
  shows "expo x = e"
proof -
  have "pow2 e < pow2 (expo x + 1)" using assms(2) expo_bounds(2) [OF assms(1)] by linarith
  then have a: "e \<le> expo x" by (simp add: pow2_less_iff)
  have "pow2 (expo x) < pow2 (e + 1)" using assms(3) expo_bounds(1) [OF assms(1)] by linarith
  then have b: "expo x \<le> e" by (simp add: pow2_less_iff)
  from a b show ?thesis by simp
qed

lemma rhe_of_int [simp]: "round_half_even (of_int n) = n"
  by (simp add: round_half_even_def)

lemma rhe_0 [simp]: "round_half_even 0 = 0"
  using rhe_of_int [of 0] by simp

lemma rhe_cases:
  "round_half_even x = \<lfloor>x\<rfloor> \<and> x - of_int \<lfloor>x\<rfloor> \<le> 1 / 2
   \<or> round_half_even x = \<lfloor>x\<rfloor> + 1 \<and> 1 / 2 \<le> x - of_int \<lfloor>x\<rfloor>"
  by (auto simp: round_half_even_def Let_def)

lemma rhe_bounds: "x - 1 / 2 \<le> of_int (round_half_even x)" "of_int (round_half_even x) \<le> x + 1 / 2"
proof -
  have f: "of_int \<lfloor>x\<rfloor> \<le> x" "x < of_int \<lfloor>x\<rfloor> + 1" by linarith+
  from rhe_cases [of x] show "x - 1 / 2 \<le> of_int (round_half_even x)"
  proof
    assume "round_half_even x = \<lfloor>x\<rfloor> \<and> x - of_int \<lfloor>x\<rfloor> \<le> 1 / 2"
    then show ?thesis by linarith
  next
    assume "round_half_even x = \<lfloor>x\<rfloor> + 1 \<and> 1 / 2 \<le> x - of_int \<lfloor>x\<rfloor>"
    then have "of_int (round_half_even x) = of_int \<lfloor>x\<rfloor> + (1::rat)" by simp
    then show ?thesis using f by linarith
  qed
  from rhe_cases [of x] show "of_int (round_half_even x) \<le> x + 1 / 2"
  proof
    assume "round_half_even x = \<lfloor>x\<rfloor> \<and> x - of_int \<lfloor>x\<rfloor> \<le> 1 / 2"
    then have "of_int (round_half_even x) = (of_int \<lfloor>x\<rfloor> :: rat)" by simp
    then show ?thesis using f by linarith
  next
    assume "round_half_even x = \<lfloor>x\<rfloor> + 1 \<and> 1 / 2 \<le> x - of_int \<lfloor>x\<rfloor>"
    then have "of_int (round_half_even x) = of_int \<lfloor>x\<rfloor> + (1::rat)" "1 / 2 \<le> x - of_int \<lfloor>x\<rfloor>" by simp_all
    then show ?thesis by linarith
  qed
qed

lemma rhe_mono:
  assumes "x \<le> y"
  shows "round_half_even x \<le> round_half_even y"
proof (cases "\<lfloor>x\<rfloor> = \<lfloor>y\<rfloor>")
  case True
  then show ?thesis using assms by (auto simp: round_half_even_def Let_def)
next
  case False
  then have "\<lfloor>x\<rfloor> < \<lfloor>y\<rfloor>" using floor_mono [OF assms] by linarith
  moreover have "round_half_even x \<le> \<lfloor>x\<rfloor> + 1" using rhe_cases [of x] by auto
  moreover have "\<lfloor>y\<rfloor> \<le> round_half_even y" using rhe_cases [of y] by auto
  ultimately show ?thesis by linarith
qed

lemma rhe_minus: "round_half_even (- x) = - round_half_even x"
proof (cases "x = of_int \<lfloor>x\<rfloor>")
  case True
  then obtain n where "x = of_int n" ..
  then have "- x = of_int (- n)" by simp
  then show ?thesis using \<open>x = of_int n\<close> by (simp only: rhe_of_int)
next
  case False
  then have lt: "of_int \<lfloor>x\<rfloor> < x" by linarith
  have c: "\<lceil>x\<rceil> = \<lfloor>x\<rfloor> + 1" using False by (simp add: ceiling_altdef)
  have f: "\<lfloor>- x\<rfloor> = - \<lfloor>x\<rfloor> - 1" using c by (simp add: floor_minus)
  show ?thesis
    unfolding round_half_even_def Let_def f using lt by auto
qed

lemma quantum_pos [simp]: "0 < quantum x"
  by (simp add: quantum_def)

lemma quantum_minus [simp]: "quantum (- x) = quantum x"
  by (simp add: quantum_def)

lemma rnd_0 [simp]: "rnd 0 = 0"
  by (simp add: rnd_def)

lemma rnd_minus: "rnd (- x) = - rnd x"
  by (simp add: rnd_def rhe_minus)

lemma rnd_nonneg: "0 \<le> x \<Longrightarrow> 0 \<le> rnd x"
proof -
  assume "0 \<le> x"
  then have "0 \<le> x / quantum x" using quantum_pos [of x] by (simp add: less_imp_le)
  then have "round_half_even 0 \<le> round_half_even (x / quantum x)" by (rule rhe_mono)
  then have "(0::rat) \<le> of_int (round_half_even (x / quantum x))" by simp
  then show ?thesis
    unfolding rnd_def using quantum_pos [of x] by (intro mult_nonneg_nonneg) (simp_all add: less_imp_le)
qed

lemma rnd_nonpos: "x \<le> 0 \<Longrightarrow> rnd x \<le> 0"
  using rnd_nonneg [of "- x"] by (simp add: rnd_minus)

text \<open>A multiple of its own quantum is left as it is.\<close>

lemma rnd_multiple: "x = of_int m * quantum x \<Longrightarrow> rnd x = x"
proof -
  assume a: "x = of_int m * quantum x"
  have "x / quantum x = of_int m"
    using a quantum_pos [of x] by (metis less_irrefl nonzero_mult_div_cancel_right)
  then show ?thesis using a by (simp add: rnd_def)
qed

lemma pow2_0 [simp]: "pow2 0 = 1"
  by (simp add: pow2_def)

lemma pow2_int_multiple:
  assumes "j \<le> i"
  shows "pow2 i = of_int (2 ^ nat (i - j)) * pow2 j"
proof -
  have a: "pow2 (int (nat (i - j))) = of_int (2 ^ nat (i - j))"
    by (subst pow2_nat) simp
  have "i = int (nat (i - j)) + j" using assms by simp
  then have "pow2 i = pow2 (int (nat (i - j)) + j)" by (rule arg_cong)
  also have "\<dots> = pow2 (int (nat (i - j))) * pow2 j" by (rule pow2_add)
  finally show ?thesis unfolding a .
qed

lemma pow2_split:
  "pow2 (a + 1) = pow2 53 * pow2 (a - 52)" "pow2 a = pow2 52 * pow2 (a - 52)"
proof -
  have "a + 1 = 53 + (a - 52)" by simp
  then have "pow2 (a + 1) = pow2 (53 + (a - 52))" by (rule arg_cong)
  then show "pow2 (a + 1) = pow2 53 * pow2 (a - 52)" by (simp only: pow2_add)
  have "a = 52 + (a - 52)" by simp
  then have "pow2 a = pow2 (52 + (a - 52))" by (rule arg_cong)
  then show "pow2 a = pow2 52 * pow2 (a - 52)" by (simp only: pow2_add)
qed

lemma expo_mono:
  assumes "0 < x" and "x \<le> y"
  shows "expo x \<le> expo y"
proof -
  have y: "0 < y" using assms by linarith
  have "pow2 (expo x) < pow2 (expo y + 1)"
    using expo_bounds(1) [OF assms(1)] expo_bounds(2) [OF y] assms(2) by linarith
  then show ?thesis by (simp add: pow2_less_iff)
qed

lemma expo_pow2 [simp]: "expo (pow2 k) = k"
  by (rule expo_unique) (simp_all add: pow2_strict_mono)

lemma expo_ge: "pow2 e \<le> x \<Longrightarrow> e \<le> expo x"
  using expo_mono [of "pow2 e" x] by simp

lemma expo_less: "0 < x \<Longrightarrow> x < pow2 e \<Longrightarrow> expo x < e"
  using expo_bounds(1) [of x] pow2_less_iff [of "expo x" e] by linarith

text \<open>A multiple of a power of two that is not below the quantum is left as it is.\<close>

lemma rnd_exactI:
  assumes "x = of_int m * pow2 j" and "max (expo \<bar>x\<bar>) (- 1022) - 52 \<le> j"
  shows "rnd x = x"
proof -
  have "pow2 j = of_int (2 ^ nat (j - (max (expo \<bar>x\<bar>) (- 1022) - 52))) * quantum x"
    unfolding quantum_def by (rule pow2_int_multiple [OF assms(2)])
  then have "x = of_int (m * 2 ^ nat (j - (max (expo \<bar>x\<bar>) (- 1022) - 52))) * quantum x"
    using assms(1) by simp
  then show ?thesis by (rule rnd_multiple)
qed

lemma rnd_pow2: "- 1074 \<le> k \<Longrightarrow> rnd (pow2 k) = pow2 k"
proof -
  assume k: "- 1074 \<le> k"
  have a: "\<bar>pow2 k\<bar> = pow2 k" by (simp add: abs_of_pos)
  have "max (expo \<bar>pow2 k\<bar>) (- 1022) - 52 \<le> k" unfolding a using k by simp
  moreover have "pow2 k = of_int 1 * pow2 k" by simp
  ultimately show ?thesis by (rule rnd_exactI [rotated])
qed

lemma pow2_numeral_53: "pow2 53 = 9007199254740992"
  by (simp add: pow2_def)

lemma rnd_int:
  assumes "\<bar>n\<bar> \<le> 9007199254740992"
  shows "rnd (of_int n) = of_int n"
proof (cases "\<bar>n\<bar> = 9007199254740992")
  case True
  then have "(of_int \<bar>n\<bar> :: rat) = pow2 53" by (simp add: pow2_numeral_53)
  then have a: "\<bar>of_int n :: rat\<bar> = pow2 53" by simp
  have "(of_int n :: rat) = of_int (sgn n) * pow2 53"
    using a by (cases "0 \<le> n") (simp_all add: abs_if sgn_if split: if_splits)
  then show ?thesis
    by (rule rnd_exactI) (simp add: a)
next
  case False
  then have lt: "\<bar>n\<bar> < 9007199254740992" using assms by linarith
  show ?thesis
  proof (cases "n = 0")
    case True
    then show ?thesis by simp
  next
    case False
    then have p: "(0::rat) < \<bar>of_int n\<bar>" by simp
    have "(of_int \<bar>n\<bar> :: rat) < of_int 9007199254740992" using lt by (simp only: of_int_less_iff)
    then have "\<bar>of_int n :: rat\<bar> < pow2 53" by (simp add: pow2_numeral_53)
    then have "expo \<bar>of_int n :: rat\<bar> < 53" using p by (rule expo_less [rotated])
    then have "max (expo \<bar>of_int n :: rat\<bar>) (- 1022) - 52 \<le> 0" by simp
    moreover have "(of_int n :: rat) = of_int n * pow2 0" by simp
    ultimately show ?thesis by (rule rnd_exactI [rotated])
  qed
qed

lemma scaled_less:
  assumes "0 < x"
  shows "x / quantum x < pow2 53"
proof -
  let ?a = "max (expo \<bar>x\<bar>) (- 1022)"
  have "x < pow2 (expo x + 1)" using assms by (rule expo_bounds(2))
  also have "\<dots> \<le> pow2 (?a + 1)" using assms by (intro pow2_mono) simp
  also have "\<dots> = pow2 53 * quantum x" unfolding quantum_def by (rule pow2_split(1))
  finally show ?thesis using quantum_pos [of x] by (simp add: field_simps)
qed

lemma rnd_le_pow2:
  assumes "0 < x"
  shows "rnd x \<le> pow2 (max (expo x) (- 1022) + 1)"
proof -
  have "x / quantum x \<le> of_int 9007199254740992"
    using scaled_less [OF assms] by (simp add: pow2_numeral_53)
  then have "round_half_even (x / quantum x) \<le> round_half_even (of_int 9007199254740992)"
    by (rule rhe_mono)
  then have "round_half_even (x / quantum x) \<le> 9007199254740992" by (simp only: rhe_of_int)
  then have "(of_int (round_half_even (x / quantum x)) :: rat) \<le> of_int 9007199254740992"
    by (simp only: of_int_le_iff)
  then have "rnd x \<le> pow2 53 * quantum x"
    unfolding rnd_def using quantum_pos [of x] by (simp add: pow2_numeral_53)
  also have "\<dots> = pow2 (max (expo x) (- 1022) + 1)"
    using assms pow2_split(1) [of "max (expo x) (- 1022)"] by (simp add: quantum_def)
  finally show ?thesis .
qed

lemma rnd_ge_pow2:
  assumes "0 < x" and "- 1022 \<le> expo x"
  shows "pow2 (expo x) \<le> rnd x"
proof -
  have q: "quantum x = pow2 (expo x - 52)" using assms by (simp add: quantum_def max_def)
  have e: "pow2 (expo x) = pow2 52 * quantum x" unfolding q by (rule pow2_split(2))
  then have "pow2 52 * quantum x \<le> x" using expo_bounds(1) [OF assms(1)] by simp
  then have "pow2 52 \<le> x / quantum x" using quantum_pos [of x] by (simp add: field_simps)
  then have "of_int 4503599627370496 \<le> x / quantum x" by (simp add: pow2_def)
  then have "round_half_even (of_int 4503599627370496) \<le> round_half_even (x / quantum x)"
    by (rule rhe_mono)
  then have "4503599627370496 \<le> round_half_even (x / quantum x)" by (simp only: rhe_of_int)
  then have "(of_int 4503599627370496 :: rat) \<le> of_int (round_half_even (x / quantum x))"
    by (simp only: of_int_le_iff)
  then have "pow2 52 * quantum x \<le> rnd x"
    unfolding rnd_def using quantum_pos [of x] by (simp add: pow2_def)
  then show ?thesis by (simp only: e)
qed

lemma rnd_mono_pos:
  assumes "0 < x" and "x \<le> y"
  shows "rnd x \<le> rnd y"
proof -
  have y: "0 < y" using assms by linarith
  let ?a = "max (expo x) (- 1022)"
  let ?b = "max (expo y) (- 1022)"
  have ab: "?a \<le> ?b" using expo_mono [OF assms] by simp
  show ?thesis
  proof (cases "?a = ?b")
    case True
    then have q: "quantum x = quantum y" using assms(1) y by (simp add: quantum_def)
    have "x / quantum y \<le> y / quantum y"
      using assms(2) quantum_pos [of y] by (simp add: divide_right_mono less_imp_le)
    then have "round_half_even (x / quantum y) \<le> round_half_even (y / quantum y)" by (rule rhe_mono)
    then have "(of_int (round_half_even (x / quantum y)) :: rat) \<le> of_int (round_half_even (y / quantum y))"
      by (simp only: of_int_le_iff)
    then show ?thesis
      unfolding rnd_def q using quantum_pos [of y] by (simp add: mult_right_mono less_imp_le)
  next
    case False
    then have lt: "?a < ?b" using ab by linarith
    then have b: "?b = expo y" "- 1022 \<le> expo y" by (simp_all add: max_def split: if_splits)
    have "rnd x \<le> pow2 (?a + 1)" using assms(1) by (rule rnd_le_pow2)
    also have "\<dots> \<le> pow2 (expo y)"
    proof (rule pow2_mono)
      show "?a + 1 \<le> expo y" using lt b(1) by linarith
    qed
    also have "\<dots> \<le> rnd y" using y b(2) by (rule rnd_ge_pow2)
    finally show ?thesis .
  qed
qed

lemma rnd_mono:
  assumes "x \<le> y"
  shows "rnd x \<le> rnd y"
proof -
  consider "0 < x" | "x \<le> 0" "0 \<le> y" | "y < 0" by linarith
  then show ?thesis
  proof cases
    case 1
    then show ?thesis using assms by (rule rnd_mono_pos)
  next
    case 2
    then show ?thesis using rnd_nonpos [of x] rnd_nonneg [of y] by linarith
  next
    case 3
    then have "0 < - y" "- y \<le> - x" using assms by simp_all
    then have "rnd (- y) \<le> rnd (- x)" by (rule rnd_mono_pos)
    then show ?thesis by (simp add: rnd_minus)
  qed
qed

lemma rnd_idem: "rnd (rnd x) = rnd x"
proof -
  have pos: "rnd (rnd x) = rnd x" if x: "0 < x" for x
  proof -
    let ?a = "max (expo x) (- 1022)"
    define m where "m = round_half_even (x / quantum x)"
    have y: "rnd x = of_int m * pow2 (?a - 52)" using x by (simp add: rnd_def m_def quantum_def)
    have le: "rnd x \<le> pow2 (?a + 1)" using x by (rule rnd_le_pow2)
    have nn: "0 \<le> rnd x" using x by (intro rnd_nonneg) simp
    show ?thesis
    proof (cases "rnd x = pow2 (?a + 1)")
      case True
      show ?thesis unfolding True by (rule rnd_pow2) simp
    next
      case False
      then have lt: "rnd x < pow2 (?a + 1)" using le by linarith
      show ?thesis
      proof (cases "rnd x = 0")
        case True
        then show ?thesis by simp
      next
        case False
        then have p: "0 < rnd x" using nn by linarith
        then have "expo (rnd x) < ?a + 1" using lt by (rule expo_less)
        then have "max (expo \<bar>rnd x\<bar>) (- 1022) - 52 \<le> ?a - 52" using p by simp
        with y show ?thesis by (rule rnd_exactI)
      qed
    qed
  qed
  consider "0 < x" | "x = 0" | "x < 0" by linarith
  then show ?thesis
  proof cases
    case 1
    then show ?thesis by (rule pos)
  next
    case 2
    then show ?thesis by simp
  next
    case 3
    then have "rnd (rnd (- x)) = rnd (- x)" by (intro pos) simp
    then show ?thesis by (simp add: rnd_minus)
  qed
qed

lemma pow2_1024_gt: "x \<le> pow2 k \<Longrightarrow> k < 1024 \<Longrightarrow> x < pow2 1024"
  using pow2_strict_mono [of k 1024] by linarith

lemma fl_Fin: "- pow2 1024 < rnd x \<Longrightarrow> rnd x < pow2 1024 \<Longrightarrow> fl x = Fin (rnd x)"
  by (simp add: fl_def Let_def not_le)

lemma pow2_not_le_0 [simp]: "\<not> pow2 k \<le> 0" "\<not> 0 \<le> - pow2 k"
  using pow2_pos [of k] by (simp_all add: not_le)

lemma fl_0 [simp]: "fl 0 = Fin 0"
  by (simp add: fl_def)

lemma fl_cases:
  "fl x = Fin (rnd x) \<and> - pow2 1024 < rnd x \<and> rnd x < pow2 1024
   \<or> fl x = PosInf \<and> pow2 1024 \<le> rnd x
   \<or> fl x = NegInf \<and> rnd x \<le> - pow2 1024"
  by (auto simp: fl_def Let_def not_le)

lemma fl_not_NaN [simp]: "fl x \<noteq> NaN"
  using fl_cases [of x] by auto

text \<open>What an operation returns is a double.\<close>

lemma fl_idem: "fl x = Fin y \<Longrightarrow> fl y = Fin y"
proof -
  assume a: "fl x = Fin y"
  then have y: "y = rnd x" "- pow2 1024 < rnd x" "rnd x < pow2 1024"
    using fl_cases [of x] by auto
  have "rnd y = y" unfolding y(1) by (rule rnd_idem)
  then show ?thesis using y by (simp add: fl_Fin)
qed

lemma isDouble_fl: "fl x = Fin y \<Longrightarrow> isDouble y"
  unfolding isDouble_def by (rule fl_idem)

lemma isDouble_rnd: "isDouble x \<Longrightarrow> rnd x = x"
  using fl_cases [of x] by (auto simp: isDouble_def)

text \<open>Every integer of magnitude \<open>2^53\<close> at most is a double.\<close>

lemma fl_int:
  assumes "\<bar>n\<bar> \<le> 9007199254740992"
  shows "fl (of_int n) = Fin (of_int n)"
proof -
  have r: "rnd (of_int n) = of_int n" using assms by (rule rnd_int)
  have "(of_int \<bar>n\<bar> :: rat) \<le> of_int 9007199254740992" using assms by (simp only: of_int_le_iff)
  then have "\<bar>of_int n :: rat\<bar> \<le> pow2 53" by (simp add: pow2_numeral_53)
  then have "\<bar>of_int n :: rat\<bar> < pow2 1024" by (rule pow2_1024_gt) simp
  then show ?thesis using r by (intro fl_Fin [THEN trans]) (simp_all add: abs_less_iff)
qed

lemma fl_nat: "n \<le> 9007199254740992 \<Longrightarrow> fl (of_nat n) = Fin (of_nat n)"
  using fl_int [of "int n"] by simp

lemma pow2_nonneg [simp]: "0 \<le> pow2 e"
  using pow2_pos [of e] by (rule less_imp_le)

text \<open>A double of magnitude \<open>2^e\<close> or more is a multiple of \<open>2^(e - 52)\<close>.\<close>

lemma isDouble_multiple:
  assumes "isDouble y" and "pow2 e \<le> y" and "- 1022 \<le> e"
  shows "\<exists>m. y = of_int m * pow2 (e - 52)"
proof -
  have y0: "0 < y" using assms(2) pow2_pos [of e] by linarith
  have ee: "e \<le> expo y" using assms(2) by (rule expo_ge)
  have "max (expo y) (- 1022) = expo y" using ee assms(3) by simp
  then have q: "quantum y = pow2 (expo y - 52)" using y0 by (simp add: quantum_def)
  have "pow2 (expo y - 52) = of_int (2 ^ nat (expo y - 52 - (e - 52))) * pow2 (e - 52)"
    using ee by (intro pow2_int_multiple) simp
  then have "rnd y = of_int (round_half_even (y / quantum y) * 2 ^ nat (expo y - 52 - (e - 52))) * pow2 (e - 52)"
    by (simp add: rnd_def q)
  then show ?thesis using isDouble_rnd [OF assms(1)] by metis
qed

lemma pow2_m53: "pow2 (- 52) = 2 * pow2 (- 53)"
  using pow2_add [of 1 "- 53"] by (simp add: pow2_def)

lemma double_difference:
  assumes "isDouble u" and "isDouble t" and "1 \<le> u" and "t < u"
  shows "pow2 (- 53) \<le> u - t"
proof (cases "t < 1 / 2")
  case True
  have "pow2 (- 53) \<le> pow2 (- 1)" by (rule pow2_mono) simp
  also have "\<dots> = 1 / 2" by (simp add: pow2_def)
  finally show ?thesis using True assms(3) by linarith
next
  case False
  then have "pow2 (- 1) \<le> t" by (simp add: pow2_def)
  from isDouble_multiple [OF assms(2) this] obtain b where b: "t = of_int b * pow2 (- 53)" by auto
  have "pow2 0 \<le> u" using assms(3) by simp
  from isDouble_multiple [OF assms(1) this] obtain a where a: "u = of_int a * pow2 (- 52)" by auto
  have d: "u - t = of_int (2 * a - b) * pow2 (- 53)"
    by (simp add: a b pow2_m53 algebra_simps)
  have "0 < of_int (2 * a - b) * pow2 (- 53)" using assms(4) d by linarith
  then have "(0 :: rat) < of_int (2 * a - b)" using pow2_pos [of "- 53"] by (simp add: zero_less_mult_iff)
  then have "1 \<le> 2 * a - b" by linarith
  then have "(1 :: rat) \<le> of_int (2 * a - b)" by linarith
  then have "1 * pow2 (- 53) \<le> of_int (2 * a - b) * pow2 (- 53)"
    using pow2_pos [of "- 53"] by (intro mult_right_mono) (simp_all add: less_imp_le)
  then show ?thesis by (simp add: d)
qed

lemma rnd_ge_pow2I: "pow2 e \<le> x \<Longrightarrow> - 1074 \<le> e \<Longrightarrow> pow2 e \<le> rnd x"
  using rnd_mono [of "pow2 e" x] rnd_pow2 [of e] by simp

lemma isDouble_less: "isDouble y \<Longrightarrow> - pow2 1024 < y \<and> y < pow2 1024"
  using fl_cases [of y] by (auto simp: isDouble_def)

text \<open>Rounding between two doubles gives a double between them.\<close>

lemma fl_between:
  assumes "isDouble a" and "isDouble b" and "a \<le> x" and "x \<le> b"
  shows "\<exists>h. fl x = Fin h \<and> a \<le> h \<and> h \<le> b"
proof -
  have "rnd a \<le> rnd x" "rnd x \<le> rnd b" using assms(3,4) by (auto intro: rnd_mono)
  then have r: "a \<le> rnd x" "rnd x \<le> b" using assms(1,2) by (simp_all add: isDouble_rnd)
  then have "- pow2 1024 < rnd x" "rnd x < pow2 1024"
    using isDouble_less [OF assms(1)] isDouble_less [OF assms(2)] by linarith+
  then have "fl x = Fin (rnd x)" by (rule fl_Fin)
  with r show ?thesis by simp
qed

lemma isDouble_pow2: "- 1074 \<le> e \<Longrightarrow> e < 1024 \<Longrightarrow> isDouble (pow2 e)"
proof -
  assume e: "- 1074 \<le> e" "e < 1024"
  have "pow2 e < pow2 1024" using e(2) by (rule pow2_strict_mono)
  moreover have "- pow2 1024 < pow2 e" using pow2_pos [of e] pow2_pos [of 1024] by linarith
  ultimately show ?thesis unfolding isDouble_def using fl_Fin [of "pow2 e"] rnd_pow2 [OF e(1)] by simp
qed

lemma isDouble_0: "isDouble 0"
  by (simp add: isDouble_def)

text \<open>Rounding a number that is not below a double gives that double at least, or infinity.\<close>

lemma fl_ge:
  assumes "isDouble a" and "a \<le> x"
  shows "Fin a \<le> fl x"
proof -
  have "rnd a \<le> rnd x" using assms(2) by (rule rnd_mono)
  then have r: "a \<le> rnd x" using assms(1) by (simp add: isDouble_rnd)
  have a: "- pow2 1024 < a" using isDouble_less [OF assms(1)] by simp
  from fl_cases [of x] show ?thesis
  proof (elim disjE conjE)
    assume "fl x = Fin (rnd x)"
    then show ?thesis using r by (auto simp: less_eq_jsnumber_def)
  next
    assume "fl x = PosInf"
    then show ?thesis by (simp add: less_eq_jsnumber_def)
  next
    assume "fl x = NegInf" "rnd x \<le> - pow2 1024"
    then show ?thesis using r a by linarith
  qed
qed

text \<open>The greatest double is \<open>2^1024 - 2^971\<close>, and a sum rounds to infinity only from \<open>2^1024 - 2^970\<close>.\<close>

lemma pow2_1024_split: "pow2 1024 = pow2 53 * pow2 971" "pow2 1023 = pow2 52 * pow2 971"
  using pow2_split [of 1023] by simp_all

lemma isDouble_le_max:
  assumes "isDouble g"
  shows "g \<le> pow2 1024 - pow2 971"
proof (cases "0 < g")
  case False
  have "pow2 971 < pow2 1024" by (rule pow2_strict_mono) simp
  then show ?thesis using False by linarith
next
  case True
  have lt: "g < pow2 1024" using isDouble_less [OF assms] by simp
  have e: "expo g < 1024" using True lt by (rule expo_less)
  have q: "quantum g \<le> pow2 971"
    unfolding quantum_def using True e by (intro pow2_mono) simp
  define m where "m = round_half_even (g / quantum g)"
  define c where "c = quantum g"
  have c0: "0 < c" by (simp add: c_def)
  have g: "g = of_int m * c" using isDouble_rnd [OF assms] by (simp add: rnd_def m_def c_def)
  have "g / c < pow2 53" unfolding c_def using True by (rule scaled_less)
  moreover have "g / c = of_int m" using g c0 by simp
  ultimately have "(of_int m :: rat) < of_int 9007199254740992"
    by (simp add: pow2_numeral_53)
  then have "m < 9007199254740992" by (simp only: of_int_less_iff)
  then have "m \<le> 9007199254740991" by simp
  then have m: "(of_int m :: rat) \<le> pow2 53 - 1" by (simp add: pow2_numeral_53)
  have "0 < of_int m * c" using True g by simp
  then have m0: "(0 :: rat) \<le> of_int m" using c0 by (simp add: zero_less_mult_iff)
  have "of_int m * c \<le> of_int m * pow2 971" using q m0 unfolding c_def by (rule mult_left_mono)
  then have "g \<le> of_int m * pow2 971" using g by simp
  also have "\<dots> \<le> (pow2 53 - 1) * pow2 971" using m by (intro mult_right_mono) simp_all
  also have "\<dots> = pow2 1024 - pow2 971" by (simp add: pow2_1024_split algebra_simps)
  finally show ?thesis .
qed

lemma rnd_below_overflow:
  assumes "x < pow2 1024 - pow2 970"
  shows "rnd x < pow2 1024"
proof (cases "x < pow2 1023")
  case True
  then have "rnd x \<le> rnd (pow2 1023)" by (intro rnd_mono) simp
  then have "rnd x \<le> pow2 1023" by (simp add: rnd_pow2)
  then show ?thesis by (rule pow2_1024_gt) simp
next
  case False
  then have lo: "pow2 1023 \<le> x" by simp
  have x0: "0 < x" using lo pow2_pos [of 1023] by linarith
  have "x < pow2 1024" using assms pow2_pos [of 970] by linarith
  with x0 lo have e: "expo x = 1023" by (intro expo_unique) simp_all
  have q: "quantum x = pow2 971" using x0 by (simp add: quantum_def e)
  have h: "pow2 971 = 2 * pow2 970" using pow2_add [of 1 970] by (simp add: pow2_def)
  have "x < (pow2 53 - 1 / 2) * pow2 971"
    using assms by (simp add: pow2_1024_split algebra_simps h)
  then have "x / pow2 971 < pow2 53 - 1 / 2" using pow2_pos [of 971] by (simp only: pos_divide_less_eq)
  then have "of_int (round_half_even (x / pow2 971)) < pow2 53"
    using rhe_bounds(2) [of "x / pow2 971"] by linarith
  then have "of_int (round_half_even (x / pow2 971)) * pow2 971 < pow2 53 * pow2 971"
    using pow2_pos [of 971] by (intro mult_strict_right_mono) simp_all
  then show ?thesis by (simp add: rnd_def q pow2_1024_split)
qed

section \<open>Properties of the series numbering\<close>

lemma nat_digits_small: "n < 10 \<Longrightarrow> nat_digits n = [digit_char n]"
  by (simp add: nat_digits.simps)

lemma nat_digits_step:
  "10 \<le> n \<Longrightarrow> nat_digits n = nat_digits (n div 10) @ [digit_char (n mod 10)]"
  by (subst nat_digits.simps) simp

lemma nat_digits_length: "length (nat_digits n) \<le> max 1 n"
proof (induction n rule: nat_digits.induct)
  case (1 n)
  show ?case
  proof (cases "n < 10")
    case True
    then show ?thesis by (simp add: nat_digits_small)
  next
    case False
    then have "length (nat_digits (n div 10)) \<le> max 1 (n div 10)" by (rule 1)
    then show ?thesis using False by (simp add: nat_digits_step)
  qed
qed

lemma js_String_length: "int (length (js_String n)) \<le> \<bar>n\<bar> + 1"
  using nat_digits_length [of "nat n"] nat_digits_length [of "nat (- n)"]
  by (auto simp: js_String_def)

lemma js_less_Fin [simp]: "Fin x < Fin y \<longleftrightarrow> x < y"
  by (simp add: less_jsnumber_def)

lemma js_add_Fin [simp]: "Fin x + Fin y = fl (x + y)"
  by (simp add: plus_jsnumber_def)

lemma js_sub_Fin [simp]: "Fin x - Fin y = fl (x - y)"
  by (simp add: minus_jsnumber_def)

lemma js_mul_Fin [simp]: "Fin x * Fin y = fl (x * y)"
  by (simp add: times_jsnumber_def)

lemma js_div_Fin [simp]: "y \<noteq> 0 \<Longrightarrow> Fin x / Fin y = fl (x / y)"
  by (simp add: divide_jsnumber_def)

text \<open>On integers that stay within \<open>2^53\<close> the arithmetic of doubles is exact.\<close>

lemma js_int_arith:
  "safeInteger (a + b) \<Longrightarrow> Fin (of_int a) + Fin (of_int b) = Fin (of_int (a + b))"
  "safeInteger (a - b) \<Longrightarrow> Fin (of_int a) - Fin (of_int b) = Fin (of_int (a - b))"
  "safeInteger (a * b) \<Longrightarrow> Fin (of_int a) * Fin (of_int b) = Fin (of_int (a * b))"
  using fl_int [of "a + b"] fl_int [of "a - b"] fl_int [of "a * b"]
  by (simp_all add: safeInteger_def)

lemma numberToString_int:
  assumes "safeInteger n"
  shows "numberToString rt (Fin (of_int n)) = js_String n"
proof -
  have "\<bar>n\<bar> < 10 ^ 21" using assms by (simp add: safeInteger_def)
  then have "(of_int \<bar>n\<bar> :: rat) < of_int (10 ^ 21)" by (simp only: of_int_less_iff)
  then have "\<bar>of_int n :: rat\<bar> < 10 ^ 21" by simp
  then show ?thesis by (simp add: numberToString_def isInteger_def)
qed

lemma seriesNumber_exact:
  assumes "safeInteger (p * spp)" and "safeInteger (p * spp + int i)"
    and "safeInteger ((p * spp + int i) * t)" and "safeInteger (s + (p * spp + int i) * t)"
  shows "Fin (of_int s) + (Fin (of_int p) * Fin (of_int spp) + Fin (of_nat i)) * Fin (of_int t)
         = Fin (of_int (s + (p * spp + int i) * t))"
proof -
  have 1: "Fin (of_int p) * Fin (of_int spp) = Fin (of_int (p * spp))"
    using assms(1) by (rule js_int_arith(3))
  have "Fin (of_int (p * spp)) + Fin (of_int (int i)) = Fin (of_int (p * spp + int i))"
    using assms(2) by (rule js_int_arith(1))
  then have 2: "Fin (of_int (p * spp)) + Fin (of_nat i) = Fin (of_int (p * spp + int i))"
    by simp
  have 3: "Fin (of_int (p * spp + int i)) * Fin (of_int t) = Fin (of_int ((p * spp + int i) * t))"
    using assms(3) by (rule js_int_arith(3))
  have 4: "Fin (of_int s) + Fin (of_int ((p * spp + int i) * t)) = Fin (of_int (s + (p * spp + int i) * t))"
    using assms(4) by (rule js_int_arith(1))
  show ?thesis by (simp only: 1 2 3 4)
qed

lemma padded_digits_eq_spec:
  assumes "0 < L" and "L \<le> int (maxStringLength rt)" and "maxStringLength rt \<le> 9007199254740991"
    and "int (length raw) \<le> 9007199254740993"
  shows "(case padStart rt (Fin (of_int L)) raw of
            Inl err \<Rightarrow> Inl err
          | Inr padded \<Rightarrow>
              Inr (pfx @ (if Fin (of_int L) < Fin (of_nat (length padded))
                          then slice (Fin (of_nat (length padded)) - Fin (of_int L)) padded
                          else padded)))
         = Inr (pfx @ spec_series_digits L raw)"
proof -
  have t: "padTarget (Fin (of_int L)) = nat L"
    using assms(2,3) by (simp add: padTarget_def min_def)
  show ?thesis
  proof (cases "nat L \<le> length raw")
    case True
    then have p: "padStart rt (Fin (of_int L)) raw = Inr raw"
      by (simp add: padStart_def t)
    show ?thesis
    proof (cases "L < int (length raw)")
      case False
      then have "length raw = nat L" using True by linarith
      then show ?thesis using assms(1) False by (simp add: p spec_series_digits_def)
    next
      case lt: True
      have "safeInteger (int (length raw) - L)"
        using lt assms(1,4) by (simp add: safeInteger_def)
      then have "Fin (of_int (int (length raw))) - Fin (of_int L) = Fin (of_int (int (length raw) - L))"
        by (rule js_int_arith(2))
      then have d: "Fin (of_nat (length raw)) - Fin (of_int L) = Fin (of_int (int (length raw) - L))"
        by simp
      have n: "nat (int (length raw) - L) = length raw - nat L" using assms(1) by linarith
      have s: "slice (Fin (of_int (int (length raw) - L))) raw = drop (length raw - nat L) raw"
        using lt by (simp add: slice_def n)
      have c: "Fin (of_int L) < Fin (of_nat (length raw))" using lt by simp
      have g: "\<not> length raw \<le> nat L" using lt assms(1) by linarith
      have lhs: "(if Fin (of_int L) < Fin (of_nat (length raw))
                  then slice (Fin (of_nat (length raw)) - Fin (of_int L)) raw else raw)
                 = drop (length raw - nat L) raw"
        by (simp only: c if_True d s)
      have rhs: "spec_series_digits L raw = drop (length raw - nat L) raw"
        using g assms(1) by (simp add: spec_series_digits_def)
      show ?thesis
        unfolding p by (simp only: sum.case lhs rhs)
    qed
  next
    case False
    then have m: "\<not> maxStringLength rt < nat L" using assms(2) by linarith
    have p: "padStart rt (Fin (of_int L)) raw = Inr (replicate (nat L - length raw) (CHR ''0'') @ raw)"
      using False m by (simp add: padStart_def t)
    have l: "length (replicate (nat L - length raw) (CHR ''0'') @ raw) = nat L" using False by simp
    show ?thesis
      unfolding p using False assms(1) by (simp add: spec_series_digits_def)
  qed
qed

lemma seriesValue_eq_spec:
  assumes "start c = Fin (of_int s)" and "step c = Fin (of_int t)"
    and "padLength c = None \<and> L = 0 \<or> padLength c = Some (Fin (of_int L))"
    and "L \<le> int (maxStringLength rt)" and "maxStringLength rt \<le> 9007199254740991"
    and "safeInteger (p * spp)" and "safeInteger (p * spp + int i)"
    and "safeInteger ((p * spp + int i) * t)" and "safeInteger (s + (p * spp + int i) * t)"
  shows "seriesValue rt c (Fin (of_int p)) (Fin (of_int spp)) i =
           Inr (spec_series_value (case prefix c of Some x \<Rightarrow> x | None \<Rightarrow> []) s t L spp p (int i))"
proof -
  define N where "N = s + (p * spp + int i) * t"
  have num: "start c + (Fin (of_int p) * Fin (of_int spp) + Fin (of_nat i)) * step c = Fin (of_int N)"
    unfolding assms(1,2) N_def using assms(6-9) by (rule seriesNumber_exact)
  have raw: "numberToString rt (Fin (of_int N)) = js_String N"
    using assms(9) unfolding N_def by (rule numberToString_int)
  have len: "int (length (js_String N)) \<le> 9007199254740993"
    using js_String_length [of N] assms(9) by (simp add: safeInteger_def N_def)
  have pl: "(case padLength c of None \<Rightarrow> Fin 0
            | Some v \<Rightarrow> if v = Fin 0 \<or> v = NaN then Fin 0 else v) = Fin (of_int L)"
    using assms(3) by auto
  show ?thesis
  proof (cases "0 < L")
    case True
    have pos: "Fin 0 < Fin (of_int L)" using True by simp
    show ?thesis
      unfolding seriesValue_def Let_def num raw pl spec_series_value_def
      using padded_digits_eq_spec [OF True assms(4,5) len, of "case prefix c of Some x \<Rightarrow> x | None \<Rightarrow> []"]
      by (simp add: pos N_def del: js_less_Fin js_sub_Fin)
  next
    case False
    then show ?thesis
      unfolding seriesValue_def Let_def num raw pl spec_series_value_def
      by (simp add: spec_series_digits_def N_def)
  qed
qed

lemma nat_digits_100: "nat_digits 100 = ''100''"
  by (simp add: nat_digits_step nat_digits_small digit_char_def)

lemma nat_digits_106: "nat_digits 106 = ''106''"
  by (simp add: nat_digits_step nat_digits_small digit_char_def)

lemma sample_series_premises:
  "maxStringLength sampleRuntime \<le> 9007199254740991"
  "5 \<le> int (maxStringLength sampleRuntime)" "4 \<le> int (maxStringLength sampleRuntime)"
  by (simp_all add: sampleRuntime_def)

lemma sample_series_values:
  "seriesValue sampleRuntime \<lparr>start = Fin 100, step = Fin 1, padLength = Some (Fin 5), prefix = Some ''A-''\<rparr>
     (Fin 0) (Fin 4) 0 = Inr ''A-00100''"
  "seriesValue sampleRuntime \<lparr>start = Fin 100, step = Fin 1, padLength = Some (Fin 5), prefix = Some ''A-''\<rparr>
     (Fin 1) (Fin 4) 2 = Inr ''A-00106''"
proof -
  let ?c = "\<lparr>start = Fin 100, step = Fin 1, padLength = Some (Fin 5), prefix = Some ''A-''\<rparr>"
  have "seriesValue sampleRuntime ?c (Fin (of_int 0)) (Fin (of_int 4)) 0
          = Inr (spec_series_value (case prefix ?c of Some x \<Rightarrow> x | None \<Rightarrow> []) 100 1 5 4 0 (int 0))"
    by (rule seriesValue_eq_spec [OF _ _ _ sample_series_premises(2,1)]) (simp_all add: safeInteger_def)
  then show "seriesValue sampleRuntime ?c (Fin 0) (Fin 4) 0 = Inr ''A-00100''"
    by (simp add: spec_series_value_def spec_series_digits_def js_String_def numeral_2_eq_2 nat_digits_100)
  have "seriesValue sampleRuntime ?c (Fin (of_int 1)) (Fin (of_int 4)) 2
          = Inr (spec_series_value (case prefix ?c of Some x \<Rightarrow> x | None \<Rightarrow> []) 100 1 5 4 1 (int 2))"
    by (rule seriesValue_eq_spec [OF _ _ _ sample_series_premises(2,1)]) (simp_all add: safeInteger_def)
  then show "seriesValue sampleRuntime ?c (Fin 1) (Fin 4) 2 = Inr ''A-00106''"
    by (simp add: spec_series_value_def spec_series_digits_def js_String_def numeral_2_eq_2 nat_digits_106)
qed


lemma nat_digits_28: "nat_digits 28 = ''28''"
  by (simp add: nat_digits_step nat_digits_small digit_char_def)



text \<open>
  Outside these bounds the formula is not what is printed: above \<open>2^53\<close> a sum is
  rounded (\<open>2^53 + 1\<close> is printed as \<open>2^53\<close>), and with a repeat count that is \<open>NaN\<close>,
  which \<open>createPage\<close> passes on for a non-numeric \<open>repeatPerPage\<close>, \<open>NaN\<close> is printed
  in place of the number.
\<close>

lemma pow2_numeral_54: "pow2 54 = 18014398509481984"
  using pow2_add [of 53 1] by (simp add: pow2_numeral_53 pow2_def)

lemma pow2_1: "pow2 1 = 2" by (simp add: pow2_def)

lemma rnd_2_53_plus_1: "rnd 9007199254740993 = 9007199254740992"
proof -
  have e: "expo 9007199254740993 = 53"
    by (rule expo_unique) (simp_all add: pow2_numeral_53 pow2_numeral_54)
  have q: "quantum 9007199254740993 = 2" by (simp add: quantum_def e pow2_1)
  have f: "\<lfloor>9007199254740993 / 2 :: rat\<rfloor> = 4503599627370496"
    by (rule floor_unique) simp_all
  show ?thesis by (simp add: rnd_def q round_half_even_def Let_def f)
qed

lemma fl_2_53_plus_1: "fl 9007199254740993 = Fin 9007199254740992"
proof -
  have "(9007199254740992 :: rat) \<le> pow2 53" by (simp add: pow2_numeral_53)
  then have "(9007199254740992 :: rat) < pow2 1024" by (rule pow2_1024_gt) simp
  moreover have "- pow2 1024 < (9007199254740992 :: rat)"
    by (rule less_trans [of _ 0]) simp_all
  ultimately show ?thesis using fl_Fin [of 9007199254740993] by (simp add: rnd_2_53_plus_1)
qed

lemma nat_digits_2_53: "nat_digits 9007199254740992 = ''9007199254740992''"
  by (simp add: nat_digits_step nat_digits_small digit_char_def)

lemma series_value_rounded_above_2_53:
  "seriesValue sampleRuntime \<lparr>start = Fin 9007199254740992, step = Fin 1, padLength = None, prefix = None\<rparr>
     (Fin 0) (Fin 4) 1 = Inr ''9007199254740992''"
proof -
  have a: "fl 1 = Fin 1" using fl_int [of 1] by simp
  have n: "numberToString sampleRuntime (Fin 9007199254740992) = js_String 9007199254740992"
    using numberToString_int [of 9007199254740992 sampleRuntime] by (simp add: safeInteger_def)
  show ?thesis
    by (simp add: seriesValue_def fl_0 a fl_2_53_plus_1 n js_String_def nat_digits_2_53)
qed

lemma series_value_NaN_repeat:
  "seriesValue sampleRuntime \<lparr>start = Fin 100, step = Fin 1, padLength = Some (Fin 5), prefix = Some ''A-''\<rparr>
     (Fin 1) NaN 0 = Inr ''A-00NaN''"
  by (simp add: seriesValue_def times_jsnumber_def plus_jsnumber_def less_jsnumber_def minus_jsnumber_def
      numberToString_def padStart_def padTarget_def slice_def sampleRuntime_def numeral_2_eq_2 numeral_3_eq_3)

section \<open>Properties of the slot layout\<close>

lemma isInteger_of_int: "isInteger (of_int n)"
  by (simp add: isInteger_def)

lemma js_sub_isDouble: "a - b = Fin u \<Longrightarrow> isDouble u"
  by (cases a; cases b) (auto simp: minus_jsnumber_def intro: isDouble_fl)

lemma js_mul_zero: "Fin 0 * Fin x = Fin 0"
  by simp

lemma usableHeight_isDouble: "usableHeight k = Fin u \<Longrightarrow> isDouble u"
  unfolding usableHeight_def by (rule js_sub_isDouble)

lemma requestedGap_Fin: "\<exists>g. requestedGap sp = Fin g \<and> 0 \<le> g \<and> (isNumber sp \<longrightarrow> isDouble g)"
  by (cases sp) (auto simp: requestedGap_def isNumber_def max_def isDouble_0)

lemma count_minus_1:
  assumes "1 \<le> n" "n \<le> 4294967295"
  shows "js_max 0 (Fin (of_int n) - Fin 1) = Fin (of_int (n - 1))"
proof -
  have "Fin (of_int n) - Fin (of_int 1) = Fin (of_int (n - 1))"
    using assms by (intro js_int_arith) (simp add: safeInteger_def)
  then show ?thesis using assms(1) by simp
qed

lemma plan_Inr:
  assumes "usableHeight k = Fin u" "1 \<le> n" "n \<le> 4294967295"
  shows "buildSlotLayoutPlan k (Fin (of_int n)) sp =
     Inr (map (\<lambda>index.
                \<lparr>ls_index = index,
                 ls_x = Fin (SAFE_MARGIN k),
                 ls_y = Fin (SAFE_MARGIN k) + Fin (of_nat index) * (spec_slot_height k n sp + spec_effective_gap k n sp),
                 ls_width = Fin (A4_WIDTH k) - Fin 2 * Fin (SAFE_MARGIN k),
                 ls_height = spec_slot_height k n sp\<rparr>) [0 ..< nat n])"
proof -
  have n0: "(of_int n :: rat) \<noteq> 0" using assms(2) by simp
  have m1: "max 1 (of_int n :: rat) = of_int n" using assms(2) by simp
  have le: "(of_int n :: rat) \<le> 4294967295"
  proof -
    have "(of_int n :: rat) \<le> of_int 4294967295" using assms(3) by (simp only: of_int_le_iff)
    then show ?thesis by simp
  qed
  have fu: "fl u = Fin u"
    using usableHeight_isDouble [OF assms(1)] by (simp add: isDouble_def)
  have g: "(case sp of Fin rawGap \<Rightarrow> Fin (max 0 rawGap) | _ \<Rightarrow> Fin 0) = requestedGap sp"
    by (simp add: requestedGap_def)
  have uh: "Fin (A4_HEIGHT k) - Fin 2 * Fin (SAFE_MARGIN k) = Fin u"
    using assms(1) by (simp only: usableHeight_def)
  have c: "js_max 1 (numberOr (Given (Fin (of_int n))) 1) = Fin (of_int n)"
    using n0 m1 by simp
  show ?thesis
    apply (simp only: buildSlotLayoutPlan_def c jsnumber.case Let_def g uh count_minus_1 [OF assms(2,3)])
    apply (simp only: isInteger_of_int le floor_of_int simp_thms if_True)
    apply (simp add: spec_slot_height_def spec_effective_gap_def assms(1) Let_def fu)
    done
qed

lemma pow2_le_pos: "pow2 e \<le> x \<Longrightarrow> 0 < x"
  using pow2_pos [of e] by linarith

lemma pow2_numeral_32: "pow2 32 = 4294967296"
  by (simp add: pow2_def)

lemma fl_div_pos:
  assumes "pow2 (- 53) \<le> r" and "r \<le> u" and "isDouble u" and "1 \<le> c" and "c \<le> 4294967295"
  shows "\<exists>h. fl (r / c) = Fin h \<and> 0 < h \<and> h \<le> u"
proof -
  have c0: "0 < c" using assms(4) by linarith
  have r0: "0 < r" using assms(1) pow2_pos [of "- 53"] by linarith
  have "pow2 (- 85) * c \<le> pow2 (- 85) * pow2 32"
    using assms(5) by (intro mult_left_mono) (simp_all add: pow2_numeral_32)
  also have "\<dots> = pow2 (- 53)" using pow2_add [of "- 85" 32] by simp
  finally have "pow2 (- 85) * c \<le> r" using assms(1) by linarith
  then have lo: "pow2 (- 85) \<le> r / c" using c0 by (simp add: pos_le_divide_eq)
  have "r / c \<le> r / 1" using assms(4) r0 by (intro divide_left_mono) simp_all
  then have hi: "r / c \<le> u" using assms(2) by simp
  have "isDouble (pow2 (- 85))" by (rule isDouble_pow2) simp_all
  from fl_between [OF this assms(3) lo hi] obtain h
    where "fl (r / c) = Fin h" "pow2 (- 85) \<le> h" "h \<le> u" by auto
  moreover from this have "0 < h" using pow2_pos [of "- 85"] by linarith
  ultimately show ?thesis by auto
qed

lemma spec_slot_height_pos:
  assumes "usableHeight k = Fin u" and "1 \<le> u" and "1 \<le> n" and "n \<le> 4294967295"
  shows "\<exists>h. spec_slot_height k n sp = Fin h \<and> 0 < h \<and> h \<le> u"
proof -
  obtain g where g: "requestedGap sp = Fin g" "0 \<le> g" using requestedGap_Fin [of sp] by auto
  have du: "isDouble u" using assms(1) by (rule usableHeight_isDouble)
  have c: "1 \<le> (of_int n :: rat)" "(of_int n :: rat) \<le> 4294967295" "(of_int n :: rat) \<noteq> 0"
  proof -
    show "1 \<le> (of_int n :: rat)" using assms(3) by simp
    have "(of_int n :: rat) \<le> of_int 4294967295" using assms(4) by (simp only: of_int_le_iff)
    then show "(of_int n :: rat) \<le> 4294967295" by simp
    show "(of_int n :: rat) \<noteq> 0" using assms(3) by simp
  qed
  have p53: "pow2 (- 53) \<le> 1"
    using pow2_mono [of "- 53" 0] by simp
  define x where "x = g * of_int (n - 1)"
  have x0: "0 \<le> x" unfolding x_def using g(2) assms(3) by (intro mult_nonneg_nonneg) simp_all
  have t0: "0 \<le> rnd x" using x0 by (rule rnd_nonneg)
  have rest: "usableHeight k - requestedGap sp * Fin (of_int (n - 1)) = Fin u - fl x"
    by (simp add: assms(1) g(1) x_def)
  show ?thesis
  proof (cases "Fin 0 < Fin u - fl x")
    case False
    then have "spec_slot_height k n sp = fl (u / of_int n)"
      unfolding spec_slot_height_def Let_def rest using False c(3) by (simp add: assms(1))
    moreover have "\<exists>h. fl (u / of_int n) = Fin h \<and> 0 < h \<and> h \<le> u"
      using p53 assms(2) du c(1,2) by (intro fl_div_pos) simp_all
    ultimately show ?thesis by simp
  next
    case True
    from fl_cases [of x] have "fl x = Fin (rnd x) \<or> fl x = PosInf"
      using t0 pow2_pos [of 1024] by auto
    then have fx: "fl x = Fin (rnd x)" using True by (auto simp: minus_jsnumber_def less_jsnumber_def)
    have le: "u - rnd x \<le> u" using t0 by simp
    have "rnd (u - rnd x) \<le> rnd u" using le by (rule rnd_mono)
    then have ru: "rnd (u - rnd x) \<le> u" using du by (simp add: isDouble_rnd)
    have pos: "0 < rnd (u - rnd x)"
      using True fl_cases [of "u - rnd x"] by (auto simp: fx less_jsnumber_def dest: pow2_le_pos)
    then have "\<not> u - rnd x \<le> 0" using rnd_nonpos [of "u - rnd x"] by auto
    then have lt: "rnd x < u" by simp
    have dt: "isDouble (rnd x)" using fx by (rule isDouble_fl)
    have "pow2 (- 53) \<le> u - rnd x" using du dt assms(2) lt by (rule double_difference)
    then have lo: "pow2 (- 53) \<le> rnd (u - rnd x)" by (rule rnd_ge_pow2I) simp
    have fin: "fl (u - rnd x) = Fin (rnd (u - rnd x))"
      using pos ru isDouble_less [OF du] pow2_pos [of 1024] by (intro fl_Fin) linarith+
    have "spec_slot_height k n sp = fl (rnd (u - rnd x) / of_int n)"
      unfolding spec_slot_height_def Let_def rest using True c(3) by (simp add: fx fin)
    moreover have "\<exists>h. fl (rnd (u - rnd x) / of_int n) = Fin h \<and> 0 < h \<and> h \<le> u"
      using lo ru du c(1,2) by (rule fl_div_pos)
    ultimately show ?thesis by simp
  qed
qed

lemma pow2_971: "pow2 971 = 2 * pow2 970"
  using pow2_add [of 1 970] by (simp add: pow2_def)

lemma spec_effective_gap_Fin:
  "\<exists>e. spec_effective_gap k n sp = Fin e \<and> 0 \<le> e \<and> (isNumber sp \<longrightarrow> isDouble e)"
  using requestedGap_Fin [of sp] by (auto simp: spec_effective_gap_def isDouble_0)

lemma slot_y_lower:
  assumes "usableHeight k = Fin u" and "1 \<le> u" and "u < pow2 970"
    and "isDouble (SAFE_MARGIN k)" and "isNumber sp" and "1 \<le> n" and "n \<le> 4294967295"
  shows "Fin (SAFE_MARGIN k)
           \<le> Fin (SAFE_MARGIN k) + Fin (of_nat i) * (spec_slot_height k n sp + spec_effective_gap k n sp)"
proof -
  obtain h where h: "spec_slot_height k n sp = Fin h" "0 < h" "h \<le> u"
    using spec_slot_height_pos [OF assms(1,2,6,7)] by auto
  obtain e where e: "spec_effective_gap k n sp = Fin e" "0 \<le> e" "isDouble e"
    using spec_effective_gap_Fin [of k n sp] assms(5) by auto
  have "e \<le> pow2 1024 - pow2 971" using e(3) by (rule isDouble_le_max)
  then have "h + e < pow2 1024 - pow2 970" using h(3) assms(3) by (simp add: pow2_971)
  then have hi: "rnd (h + e) < pow2 1024" by (rule rnd_below_overflow)
  have st0: "0 \<le> rnd (h + e)" using h(2) e(2) by (intro rnd_nonneg) simp
  then have "- pow2 1024 < rnd (h + e)" using pow2_pos [of 1024] by linarith
  then have st: "fl (h + e) = Fin (rnd (h + e))" using hi by (rule fl_Fin)
  define x where "x = of_nat i * rnd (h + e)"
  have "0 \<le> x" unfolding x_def using st0 by (intro mult_nonneg_nonneg) simp_all
  then have p0: "0 \<le> rnd x" by (rule rnd_nonneg)
  have prod: "Fin (of_nat i) * (spec_slot_height k n sp + spec_effective_gap k n sp) = fl x"
    by (simp add: h(1) e(1) st x_def)
  from fl_cases [of x] have "fl x = Fin (rnd x) \<or> fl x = PosInf"
    using p0 pow2_pos [of 1024] by auto
  then show ?thesis
  proof
    assume "fl x = Fin (rnd x)"
    then have "Fin (SAFE_MARGIN k) + fl x = fl (SAFE_MARGIN k + rnd x)" by simp
    moreover have "Fin (SAFE_MARGIN k) \<le> fl (SAFE_MARGIN k + rnd x)"
      using assms(4) p0 by (intro fl_ge) simp_all
    ultimately show ?thesis by (simp only: prod)
  next
    assume "fl x = PosInf"
    then show ?thesis unfolding prod by (simp add: plus_jsnumber_def less_eq_jsnumber_def)
  qed
qed

lemma buildSlotLayoutPlan_too_long:
  "4294967295 < x \<Longrightarrow> buildSlotLayoutPlan k (Fin x) sp = Inl ''Invalid array length''"
  by (auto simp: buildSlotLayoutPlan_def Let_def max_def)

lemma buildSlotLayoutPlan_fractional:
  "1 \<le> x \<Longrightarrow> \<not> isInteger x \<Longrightarrow> buildSlotLayoutPlan k (Fin x) sp = Inl ''Invalid array length''"
  by (auto simp: buildSlotLayoutPlan_def Let_def max_def)

lemma buildSlotLayoutPlan_infinite:
  "buildSlotLayoutPlan k PosInf sp = Inl ''Invalid array length''"
  by (simp add: buildSlotLayoutPlan_def)

text \<open>
  Evaluating a rounding: the exponent \<open>e\<close> of the number and the integer \<open>m\<close> nearest
  to the number scaled by \<open>2^(52 - e)\<close> are given, and checked.
\<close>

lemma rhe_eqI:
  assumes "of_int m - 1 / 2 < y" and "y < of_int m + 1 / 2"
  shows "round_half_even y = m"
proof -
  from rhe_cases [of y] show ?thesis
  proof (elim disjE conjE)
    assume a: "round_half_even y = \<lfloor>y\<rfloor>" "y - of_int \<lfloor>y\<rfloor> \<le> 1 / 2"
    have "(of_int m :: rat) - 1 < of_int \<lfloor>y\<rfloor>" "(of_int \<lfloor>y\<rfloor> :: rat) < of_int m + 1"
      using a(2) assms by linarith+
    then have "m - 1 < \<lfloor>y\<rfloor>" "\<lfloor>y\<rfloor> < m + 1" by linarith+
    then show ?thesis using a(1) by simp
  next
    assume a: "round_half_even y = \<lfloor>y\<rfloor> + 1" "1 / 2 \<le> y - of_int \<lfloor>y\<rfloor>"
    have "(of_int m :: rat) - 1 < of_int (\<lfloor>y\<rfloor> + 1)" "(of_int (\<lfloor>y\<rfloor> + 1) :: rat) < of_int m + 1"
      using a(2) assms by (simp_all, linarith+)
    then have "m - 1 < \<lfloor>y\<rfloor> + 1" "\<lfloor>y\<rfloor> + 1 < m + 1" by linarith+
    then show ?thesis using a(1) by simp
  qed
qed

lemma rhe_tie:
  assumes "y = of_int f + 1 / 2"
  shows "round_half_even y = (if even f then f else f + 1)"
proof -
  have "\<lfloor>y\<rfloor> = f" unfolding assms by (rule floor_unique) simp_all
  then show ?thesis by (simp add: round_half_even_def Let_def assms)
qed

lemma fl_rheI:
  assumes "pow2 e \<le> x" and "x < pow2 (e + 1)" and "- 1022 \<le> e" and "e < 1023"
    and "round_half_even (x / pow2 (e - 52)) = m" and "r = of_int m * pow2 (e - 52)"
  shows "fl x = Fin r"
proof -
  have x0: "0 < x" using assms(1) by (rule pow2_le_pos)
  have e: "expo x = e" using x0 assms(1,2) by (rule expo_unique)
  have q: "quantum x = pow2 (e - 52)" using x0 assms(3) by (simp add: quantum_def e)
  have r: "rnd x = r" using assms(5,6) by (simp add: rnd_def q)
  have "rnd x \<le> pow2 (max (expo x) (- 1022) + 1)" using x0 by (rule rnd_le_pow2)
  also have "\<dots> = pow2 (e + 1)" using assms(3) by (simp add: e)
  also have "\<dots> < pow2 1024" using assms(4) by (intro pow2_strict_mono) simp
  finally have hi: "rnd x < pow2 1024" .
  have "0 \<le> rnd x" using x0 by (intro rnd_nonneg) simp
  then have lo: "- pow2 1024 < rnd x" using pow2_pos [of 1024] by linarith
  show ?thesis using fl_Fin [OF lo hi] by (simp only: r)
qed

lemma fl_nearI:
  assumes "pow2 e \<le> x" and "x < pow2 (e + 1)" and "- 1022 \<le> e" and "e < 1023"
    and "of_int m - 1 / 2 < x / pow2 (e - 52)" and "x / pow2 (e - 52) < of_int m + 1 / 2"
    and "r = of_int m * pow2 (e - 52)"
  shows "fl x = Fin r"
  using assms(1-4) rhe_eqI [OF assms(5,6)] assms(7) by (rule fl_rheI)

lemma fl_tieI:
  assumes "pow2 e \<le> x" and "x < pow2 (e + 1)" and "- 1022 \<le> e" and "e < 1023"
    and "x / pow2 (e - 52) = of_int f + 1 / 2"
    and "r = of_int (if even f then f else f + 1) * pow2 (e - 52)"
  shows "fl x = Fin r"
  using assms(1-4) rhe_tie [OF assms(5)] assms(6) by (rule fl_rheI)

lemma rnd_nearI:
  assumes "pow2 e \<le> x" and "x < pow2 (e + 1)" and "- 1022 \<le> e"
    and "of_int m - 1 / 2 < x / pow2 (e - 52)" and "x / pow2 (e - 52) < of_int m + 1 / 2"
    and "r = of_int m * pow2 (e - 52)"
  shows "rnd x = r"
proof -
  have x0: "0 < x" using assms(1) by (rule pow2_le_pos)
  have e: "expo x = e" using x0 assms(1,2) by (rule expo_unique)
  have q: "quantum x = pow2 (e - 52)" using x0 assms(3) by (simp add: quantum_def e)
  show ?thesis using rhe_eqI [OF assms(4,5)] assms(6) by (simp add: rnd_def q)
qed

text \<open>An integer or half-integer below \<open>2^52\<close> in magnitude is a double.\<close>

lemma fl_half:
  assumes "\<bar>n\<bar> < 4503599627370496"
  shows "fl (of_int n / 2) = Fin (of_int n / 2)"
proof -
  let ?x = "of_int n / 2 :: rat"
  have x: "?x = of_int n * pow2 (- 1)" by (simp add: pow2_def)
  have b: "\<bar>?x\<bar> < pow2 51"
  proof -
    have "(of_int \<bar>n\<bar> :: rat) < of_int 4503599627370496" using assms by (simp only: of_int_less_iff)
    then have "\<bar>of_int n :: rat\<bar> < 4503599627370496" by simp
    then show ?thesis by (simp add: pow2_def)
  qed
  have e: "max (expo \<bar>?x\<bar>) (- 1022) - 52 \<le> - 1"
  proof (cases "?x = 0")
    case True
    then show ?thesis by (simp add: expo_def)
  next
    case False
    then have "0 < \<bar>?x\<bar>" by simp
    then have "expo \<bar>?x\<bar> < 51" using b by (rule expo_less)
    then show ?thesis by simp
  qed
  have r: "rnd ?x = ?x" using x e by (rule rnd_exactI)
  have "pow2 51 < pow2 1024" by (rule pow2_strict_mono) simp
  then have "- pow2 1024 < ?x" "?x < pow2 1024" using b by (simp_all add: abs_less_iff)
  then show ?thesis using fl_Fin [of ?x] by (simp only: r)
qed

subsection \<open>The sample constants\<close>

lemma sample_A4_HEIGHT: "A4_HEIGHT sampleConsts = 7405342754466693 / 8796093022208"
proof -
  have "rnd (84189 / 100) = 7405342754466693 / 8796093022208"
    by (rule rnd_nearI [where e = 9 and m = 7405342754466693]) (simp_all add: pow2_def)
  then show ?thesis by (simp add: sampleConsts_def)
qed

lemma sample_SAFE_MARGIN: "SAFE_MARGIN sampleConsts = 20"
  by (simp add: sampleConsts_def)

lemma fl_40: "fl 40 = Fin 40"
  using fl_int [of 40] by simp

lemma sample_usableHeight: "usableHeight sampleConsts = Fin (7053499033578373 / 8796093022208)"
proof -
  have "fl (7405342754466693 / 8796093022208 - 40) = Fin (7053499033578373 / 8796093022208)"
    by (rule fl_nearI [where e = 9 and m = 7053499033578373]) (simp_all add: pow2_def)
  then show ?thesis
    by (simp add: usableHeight_def sample_A4_HEIGHT sample_SAFE_MARGIN fl_40)
qed

lemma sample_margin_isDouble: "isDouble (SAFE_MARGIN sampleConsts)"
  using fl_int [of 20] by (simp add: sampleConsts_def isDouble_def)

lemma isNumber_10: "isNumber (Fin 10)"
  using fl_int [of 10] by (simp add: isNumber_def isDouble_def)

lemma sample_usable_bound:
  "1 \<le> (7053499033578373 / 8796093022208 :: rat)" "(7053499033578373 / 8796093022208 :: rat) < pow2 970"
proof -
  show "1 \<le> (7053499033578373 / 8796093022208 :: rat)" by simp
  have "(7053499033578373 / 8796093022208 :: rat) < pow2 10" by (simp add: pow2_def)
  also have "\<dots> < pow2 970" by (rule pow2_strict_mono) simp
  finally show "(7053499033578373 / 8796093022208 :: rat) < pow2 970" .
qed

lemma sample_height_3: "spec_slot_height sampleConsts 3 (Fin 0) = Fin (4702332689052249 / 17592186044416)"
proof -
  have u: "fl (7053499033578373 / 8796093022208) = Fin (7053499033578373 / 8796093022208)"
    using usableHeight_isDouble [OF sample_usableHeight] by (simp only: isDouble_def)
  have "fl (7053499033578373 / 8796093022208 / 3) = Fin (4702332689052249 / 17592186044416)"
    by (rule fl_nearI [where e = 8 and m = 4702332689052249]) (simp_all add: pow2_def)
  then show ?thesis
    by (simp add: spec_slot_height_def requestedGap_def sample_usableHeight u)
qed

lemma sample_gap_3: "spec_effective_gap sampleConsts 3 (Fin 0) = Fin 0"
  by (simp add: spec_effective_gap_def requestedGap_def)

lemma sample_top_3:
  "Fin 20 + Fin 2 * (Fin (4702332689052249 / 17592186044416) + Fin 0) + Fin (4702332689052249 / 17592186044416)
     = Fin (3614710447011267 / 4398046511104)"
proof -
  have h: "fl (4702332689052249 / 17592186044416) = Fin (4702332689052249 / 17592186044416)"
    by (rule fl_nearI [where e = 8 and m = 4702332689052249]) (simp_all add: pow2_def)
  have d: "fl (2 * (4702332689052249 / 17592186044416)) = Fin (4702332689052249 / 8796093022208)"
    by (rule fl_nearI [where e = 9 and m = 4702332689052249]) (simp_all add: pow2_def)
  have y: "fl (20 + 4702332689052249 / 8796093022208) = Fin (4878254549496409 / 8796093022208)"
    by (rule fl_nearI [where e = 9 and m = 4878254549496409]) (simp_all add: pow2_def)
  have t: "fl (4878254549496409 / 8796093022208 + 4702332689052249 / 17592186044416)
             = Fin (3614710447011267 / 4398046511104)"
    by (rule fl_tieI [where e = 9 and f = 7229420894022533]) (simp_all add: pow2_def)
  show ?thesis
    by (simp only: js_add_Fin js_mul_Fin add_0_right h d y t)
qed

lemma sample_limit:
  "Fin (A4_HEIGHT sampleConsts) - Fin (SAFE_MARGIN sampleConsts) = Fin (7229420894022533 / 8796093022208)"
proof -
  have "fl (7405342754466693 / 8796093022208 - 20) = Fin (7229420894022533 / 8796093022208)"
    by (rule fl_nearI [where e = 9 and m = 7229420894022533]) (simp_all add: pow2_def)
  then show ?thesis by (simp add: sample_A4_HEIGHT sample_SAFE_MARGIN)
qed




lemma clamp16_range: "1 \<le> clamp16 n \<and> clamp16 n \<le> 16"
  by (simp add: clamp16_def)

lemma fragmentSlotsPerPage_layout:
  "fragmentSlotsPerPage (layoutRepeatPerPage raw) = spec_slots_per_page raw"
proof (cases raw)
  case Missing
  then show ?thesis
    by (simp add: fragmentSlotsPerPage_def layoutRepeatPerPage_def spec_slots_per_page_def)
next
  case (Given v)
  then show ?thesis
    by (cases v)
       (auto simp: fragmentSlotsPerPage_def layoutRepeatPerPage_def spec_slots_per_page_def clamp16_def
          min_def max_def)
next
  case (Other v)
  then show ?thesis
    by (cases v)
       (auto simp: fragmentSlotsPerPage_def layoutRepeatPerPage_def spec_slots_per_page_def clamp16_def
          min_def max_def)
qed

lemma spec_slots_per_page_range: "1 \<le> spec_slots_per_page raw \<and> spec_slots_per_page raw \<le> 16"
  using clamp16_range
  by (auto simp: spec_slots_per_page_def split: rawCount.splits jsnumber.splits)

lemma fragmentSlotsPerPage_range: "1 \<le> fragmentSlotsPerPage r \<and> fragmentSlotsPerPage r \<le> 16"
  by (cases r) (auto simp: fragmentSlotsPerPage_def)

lemma plan_of_count:
  assumes "1 \<le> x" "x \<le> 16"
  shows "buildSlotLayoutPlan k (Fin x) sp = Inl ''Invalid array length'' \<and> \<not> isInteger x
       \<or> (\<exists>plan. buildSlotLayoutPlan k (Fin x) sp = Inr plan \<and> length plan = nat \<lceil>x\<rceil> \<and> isInteger x)"
proof (cases "isInteger x")
  case False
  then show ?thesis using assms(1) by (simp add: buildSlotLayoutPlan_fractional)
next
  case True
  then have c: "\<lceil>x\<rceil> = \<lfloor>x\<rfloor>" by (metis isInteger_def ceiling_of_int floor_of_int)
  have x0: "x \<noteq> 0" using assms(1) by auto
  have m1: "max 1 x = x" using assms(1) by simp
  show ?thesis
    using True assms x0 by (simp add: buildSlotLayoutPlan_def Let_def m1 c)
qed

lemma drawSourceFragment_result:
  "(case snd (drawSourceFragment k pg tc r sp) of
      Inl e \<Rightarrow> fst (drawSourceFragment k pg tc r sp) = pg
               \<and> (isUserMmMode tc \<or> \<not> isInteger (fragmentSlotsPerPage r))
    | Inr ps \<Rightarrow> int (length ps) = \<lceil>fragmentSlotsPerPage r\<rceil>
               \<and> length (fst (drawSourceFragment k pg tc r sp)) = length pg + length ps)"
proof -
  have rg: "1 \<le> fragmentSlotsPerPage r" "fragmentSlotsPerPage r \<le> 16"
    using fragmentSlotsPerPage_range [of r] by auto
  have pos: "0 \<le> \<lceil>fragmentSlotsPerPage r\<rceil>" using rg(1) by linarith
  show ?thesis
    using plan_of_count [OF rg, of k sp] pos
    by (auto simp: drawSourceFragment_def Let_def split: option.splits)
qed

text \<open>
  C9 (as the code has it). A render call either throws, leaving the page as it was
  (in exact-unit mode, or on the ratio grid when the repeat count is not an integer),
  or produces for the page between 1 and 16 slot placements: the repeat count rounded
  up, where the repeat count is 4 when \<open>repeatPerPage\<close> is missing, \<open>0\<close> or
  \<open>NaN\<close>, 1 for a value that \<open>Number()\<close> turns into \<open>NaN\<close>, and the number
  clamped to \<open>1..16\<close> otherwise.
\<close>

theorem render_page_slot_count:
  "(case snd (renderPageFragment k pg tc raw sp) of
      Inl e \<Rightarrow> fst (renderPageFragment k pg tc raw sp) = pg
               \<and> (isUserMmMode tc \<or> \<not> isInteger (spec_slots_per_page raw))
    | Inr ps \<Rightarrow> int (length ps) = \<lceil>spec_slots_per_page raw\<rceil> \<and> 1 \<le> length ps \<and> length ps \<le> 16)"
proof -
  have r: "1 \<le> \<lceil>spec_slots_per_page raw\<rceil>" "\<lceil>spec_slots_per_page raw\<rceil> \<le> 16"
    using spec_slots_per_page_range [of raw] by (simp_all add: ceiling_le_iff)
  have len: "1 \<le> length ps \<and> length ps \<le> 16"
    if "int (length ps) = \<lceil>spec_slots_per_page raw\<rceil>" for ps :: "slotPlacement list"
    using r that by linarith
  show ?thesis
    using drawSourceFragment_result [where k = k and pg = pg and tc = tc and r = "layoutRepeatPerPage raw" and sp = "spacingOrZero sp"] len
    by (auto simp: renderPageFragment_def fragmentSlotsPerPage_layout split: sum.splits)
qed

lemma sample_ratio_mode: "\<not> isUserMmMode sampleRatioCrop"
  by (simp add: isUserMmMode_def positiveNumber_def sampleRatioCrop_def)

theorem render_page_slot_count_witness:
  "map_sum id length (snd (renderPageFragment sampleConsts [] sampleRatioCrop (Given (Fin 20)) None)) = Inr 16"
proof -
  have "\<exists>plan. buildSlotLayoutPlan sampleConsts (Fin 16) (Fin 0) = Inr plan"
    by (simp add: buildSlotLayoutPlan_def isInteger_def Let_def)
  then obtain ps where ps: "snd (renderPageFragment sampleConsts [] sampleRatioCrop (Given (Fin 20)) None) = Inr ps"
    by (auto simp: renderPageFragment_def drawSourceFragment_def sample_ratio_mode layoutRepeatPerPage_def
        fragmentSlotsPerPage_def spacingOrZero_def Let_def)
  have "int (length ps) = \<lceil>spec_slots_per_page (Given (Fin 20))\<rceil>"
    using render_page_slot_count [of sampleConsts "[]" sampleRatioCrop "Given (Fin 20)" None] ps by simp
  then have "length ps = 16" by (simp add: spec_slots_per_page_def clamp16_def)
  with ps show ?thesis by simp
qed

text \<open>
  A repeat count of \<open>0\<close> is below 1 and is not raised to 1: it takes the default and the
  page gets 4 placements. A non-numeric value does not take the default 4: the page gets
  one placement.
\<close>

theorem repeat_zero_counterexample:
  "map_sum id length (snd (renderPageFragment sampleConsts [] sampleRatioCrop (Given (Fin 0)) None)) = Inr 4 \<and>
   map_sum id length (snd (renderPageFragment sampleConsts [] sampleRatioCrop (Other NaN) None)) = Inr 1"
  by (simp add: renderPageFragment_def drawSourceFragment_def sample_ratio_mode layoutRepeatPerPage_def
      fragmentSlotsPerPage_def spacingOrZero_def buildSlotLayoutPlan_def isInteger_def Let_def)

lemma firstError_None: "firstError cs = None \<longleftrightarrow> (\<forall>c \<in> set cs. c = None)"
  by (induction cs rule: firstError.induct) auto

lemma firstError_Some: "firstError cs = Some e \<Longrightarrow> Some e \<in> set cs"
  by (induction cs rule: firstError.induct) auto

lemma assertFiniteIfPresent_None: "assertFiniteIfPresent v name = None \<longleftrightarrow> finiteOrAbsent v"
  by (auto simp: assertFiniteIfPresent_def finiteOrAbsent_def split: option.splits jsnumber.splits)

lemma assertFiniteIfPresent_Some:
  "assertFiniteIfPresent v name = Some e \<Longrightarrow> take 17 e = ''MM_LAYOUT_INVALID''"
  by (auto simp: assertFiniteIfPresent_def split: option.splits jsnumber.splits)

lemma negative_check_None:
  "(case finiteOrNull v of Some r \<Rightarrow> if r < 0 then Some msg else None | None \<Rightarrow> None) = None
     \<longleftrightarrow> notNegative v"
  by (auto simp: finiteOrNull_def notNegative_def split: option.splits jsnumber.splits)

lemma negative_check_Some:
  "(case finiteOrNull v of Some r \<Rightarrow> if r < 0 then Some msg else None | None \<Rightarrow> None) = Some e
     \<Longrightarrow> e = msg"
  by (auto split: option.splits if_splits)

lemma mmModeValidation_None: "mmModeValidation tc = None \<longleftrightarrow> spec_mm_fields_valid tc"
  unfolding mmModeValidation_def firstError_None spec_mm_fields_valid_def
  by (simp add: assertFiniteIfPresent_None negative_check_None)

lemma mmModeValidation_Some:
  assumes "mmModeValidation tc = Some e"
  shows "take 17 e = ''MM_LAYOUT_INVALID''"
proof -
  from firstError_Some [OF assms [unfolded mmModeValidation_def]]
  show ?thesis
    by (auto dest!: assertFiniteIfPresent_Some negative_check_Some sym [of "Some e"])
qed

lemma mmValue_cases:
  "v = None \<and> r = 0 \<or> v = Some (Fin r) \<Longrightarrow> mmValue v = Fin r"
  by (auto simp: mmValue_def finiteOrNull_def)

lemma fl_numeral [simp]:
  "(numeral w :: int) \<le> 9007199254740992 \<Longrightarrow> fl (numeral w) = Fin (numeral w)"
  using fl_int [of "numeral w"] by simp

lemma fl_1 [simp]: "fl 1 = Fin 1"
  using fl_int [of 1] by simp

lemma sample_A4_HEIGHT_MM: "A4_HEIGHT_MM sampleConsts = Fin (5224880721207055 / 17592186044416)"
proof -
  have c: "fl (254 / 10) = Fin (3574732204225331 / 140737488355328)"
    by (rule fl_nearI [where e = 4 and m = 7149464408450662]) (simp_all add: pow2_def)
  have p: "fl (7405342754466693 / 8796093022208 * (3574732204225331 / 140737488355328))
             = Fin (5877990811357937 / 274877906944)"
    by (rule fl_nearI [where e = 14 and m = 5877990811357937]) (simp_all add: pow2_def)
  have d: "fl (5877990811357937 / 19791209299968) = Fin (5224880721207055 / 17592186044416)"
    by (rule fl_nearI [where e = 8 and m = 5224880721207055]) (simp_all add: pow2_def)
  show ?thesis
    by (simp only: A4_HEIGHT_MM_def sample_A4_HEIGHT c js_mul_Fin p)
       (simp add: d)
qed

lemma sample_mm_mode: "isUserMmMode sampleMmCrop"
  by (simp add: isUserMmMode_def positiveNumber_def sampleMmCrop_def)

lemma sample_mm_valid: "spec_mm_fields_valid sampleMmCrop"
  by (simp add: spec_mm_fields_valid_def finiteOrAbsent_def notNegative_def sampleMmCrop_def)

lemma sample_last_bottom: "Fin 10 + (Fin 3 - Fin 1) * (Fin 100 + Fin 5) + Fin 100 = Fin 320"
  by simp




text \<open>
  The check takes the clamped repeat count as it is, and the loop runs while its counter
  is below it. For a count that is not an integer the check is passed by more objects
  than fit: with a repeat count of 2.5 the check computes 267.5 mm, three objects are
  drawn, and the third one ends at 320 mm, below the end of the page.
\<close>

lemma exact_unit_fractional_count:
  "fragmentSlotsPerPage (Fin (5 / 2)) = 5 / 2"
  "lastObjectBottomMm sampleMmCrop (5 / 2) = Fin (535 / 2)"
  "map_sum id (map (map_option obj_yMm \<circ> objectMm))
     (snd (drawSourceFragment sampleConsts [] sampleMmCrop (Fin (5 / 2)) (Fin 0)))
     = Inr [Some (Fin 10), Some (Fin 115), Some (Fin 220)]"
  "A4_HEIGHT_MM sampleConsts < Fin 220 + Fin 100"
proof -
  show n: "fragmentSlotsPerPage (Fin (5 / 2)) = 5 / 2" by (simp add: fragmentSlotsPerPage_def)
  have h: "fl (3 / 2) = Fin (3 / 2)" "fl (315 / 2) = Fin (315 / 2)" "fl (335 / 2) = Fin (335 / 2)"
    "fl (535 / 2) = Fin (535 / 2)"
    using fl_half [of 3] fl_half [of 315] fl_half [of 335] fl_half [of 535] by simp_all
  show b: "lastObjectBottomMm sampleMmCrop (5 / 2) = Fin (535 / 2)"
    by (simp add: lastObjectBottomMm_def mmValue_def finiteOrNull_def sampleMmCrop_def h)
  have v: "mmModeValidation sampleMmCrop = None"
    using sample_mm_valid by (simp add: mmModeValidation_None)
  have "\<lceil>5 / 2 :: rat\<rceil> = 3" by (rule ceiling_unique) simp_all
  then have c: "nat \<lceil>5 / 2 :: rat\<rceil> = 3" by simp
  have l: "[0 ..< 3] = [0, Suc 0, Suc (Suc 0)]" by (simp add: numeral_3_eq_3)
  have y: "map_option obj_yMm (objectMm (snd (mmSlot sampleConsts sampleMmCrop i)))
             = Some (Fin 10 + Fin (of_nat i) * Fin 105)" for i
    by (simp add: mmSlot_def Let_def mmValue_def finiteOrNull_def sampleMmCrop_def del: js_mul_Fin)
  have "snd (drawSourceFragment sampleConsts [] sampleMmCrop (Fin (5 / 2)) (Fin 0))
          = Inr (map snd (map (mmSlot sampleConsts sampleMmCrop) [0, Suc 0, Suc (Suc 0)]))"
    by (simp add: drawSourceFragment_def sample_mm_mode v n b sample_A4_HEIGHT_MM c l Let_def)
  then show "map_sum id (map (map_option obj_yMm \<circ> objectMm))
     (snd (drawSourceFragment sampleConsts [] sampleMmCrop (Fin (5 / 2)) (Fin 0)))
     = Inr [Some (Fin 10), Some (Fin 115), Some (Fin 220)]"
    by (simp add: y)
  show "A4_HEIGHT_MM sampleConsts < Fin 220 + Fin 100"
    by (simp add: sample_A4_HEIGHT_MM)
qed

section \<open>Properties of the render lock\<close>

lemma release_keys_distinct:
  "lockKey d \<noteq> activeKey" "lockKey d \<noteq> memberKey j" "memberKey j \<noteq> activeKey"
  "activeKey \<noteq> lockKey d" "memberKey j \<noteq> lockKey d" "activeKey \<noteq> memberKey j"
  by (simp_all add: lockKey_def activeKey_def memberKey_def)

lemma release_store_cases:
  assumes "d \<noteq> []" "j \<noteq> []"
  shows "fst (releaseRenderLock lp Client d j r) =
     (let r1 = (if (\<exists>cur. r (lockKey d) = Some cur \<and> rval_string cur = j) then r(lockKey d := None) else r)
      in if r (memberKey j) = None then r1
         else (case r activeKey of
                 Some (RInt a) \<Rightarrow> if a > 0 then r1(memberKey j := None, activeKey \<mapsto> RInt (a - 1))
                                  else r1(memberKey j := None)
               | _ \<Rightarrow> r1(memberKey j := None)))"
  using assms
  by (auto simp: releaseRenderLock_def RELEASE_RENDER_LOCK_LUA_def Let_def release_keys_distinct
      split: option.splits rval.splits scriptResult.splits prod.splits)

lemma release_no_throw: "c \<noteq> NotDefined \<Longrightarrow> snd (releaseRenderLock lp c d j r) = None"
  by (cases c) (auto simp: releaseRenderLock_def split: prod.splits scriptResult.splits)

lemma release_not_defined:
  "releaseRenderLock lp NotDefined d j r = (r, Some ''getRedisClient is not defined'')"
  by (simp add: releaseRenderLock_def)

lemma release_noop: "c \<noteq> Client \<or> d = [] \<or> j = [] \<Longrightarrow> fst (releaseRenderLock lp c d j r) = r"
  by (cases c) (auto simp: releaseRenderLock_def)

lemma release_twice:
  "fst (releaseRenderLock lp c d j (fst (releaseRenderLock lp c d j r))) = fst (releaseRenderLock lp c d j r)"
proof (cases "c = Client \<and> d \<noteq> [] \<and> j \<noteq> []")
  case False
  then show ?thesis by (auto simp: release_noop)
next
  case True
  then have a: "d \<noteq> []" "j \<noteq> []" and c: "c = Client" by auto
  show ?thesis
    unfolding c release_store_cases [OF a]
    by (auto simp: Let_def release_keys_distinct split: option.splits rval.splits)
qed

lemma release_counter:
  "fst (releaseRenderLock lp c d j r) activeKey = r activeKey \<or>
   (\<exists>a. 0 < a \<and> r activeKey = Some (RInt a) \<and> r (memberKey j) \<noteq> None \<and>
        fst (releaseRenderLock lp c d j r) activeKey = Some (RInt (a - 1)) \<and> 0 \<le> a - 1)"
proof (cases "c = Client \<and> d \<noteq> [] \<and> j \<noteq> []")
  case False
  then show ?thesis by (auto simp: release_noop)
next
  case True
  then have a: "d \<noteq> []" "j \<noteq> []" and c: "c = Client" by auto
  show ?thesis
    unfolding c release_store_cases [OF a]
    by (auto simp: Let_def release_keys_distinct split: option.splits rval.splits)
qed

text \<open>
  Once \<open>getRedisClient\<close> is bound, release behaves as specified: for any store state,
  releasing twice in a row never throws, the second release changes nothing, and the
  first one either leaves the active counter as it was or, when the job's membership
  marker exists and the counter is strictly positive, decrements it by one, to a value
  that is not below zero.
\<close>

lemma release_idempotent_when_bound:
  assumes "c \<noteq> NotDefined"
  shows "snd (releaseRenderLock lp c d j r) = None \<and>
   snd (releaseRenderLock lp c d j (fst (releaseRenderLock lp c d j r))) = None \<and>
   fst (releaseRenderLock lp c d j (fst (releaseRenderLock lp c d j r))) = fst (releaseRenderLock lp c d j r) \<and>
   (fst (releaseRenderLock lp c d j r) activeKey = r activeKey \<or>
    (\<exists>a. 0 < a \<and> r activeKey = Some (RInt a) \<and> r (memberKey j) \<noteq> None \<and>
        fst (releaseRenderLock lp c d j r) activeKey = Some (RInt (a - 1)) \<and> 0 \<le> a - 1))"
  using release_no_throw [OF assms] release_twice release_counter by blast

text \<open>The active counter, when it is a number that is not negative, stays one: a release takes at most one from it.\<close>

lemma release_counter_floor:
  assumes "activeCount r = Some a" and "0 \<le> a"
  shows "\<exists>a'. activeCount (fst (releaseRenderLock lp c d j r)) = Some a' \<and> 0 \<le> a' \<and> a - 1 \<le> a' \<and> a' \<le> a"
  using release_counter [of lp c d j r] assms
  by (auto simp: activeCount_def split: option.splits rval.splits)

lemma release_sample_run:
  "fst (releaseRenderLock (\<lambda>s. False) Client ''doc1'' ''job1'' sampleStore) = [activeKey \<mapsto> RInt 0]"
  by (auto simp: releaseRenderLock_def RELEASE_RENDER_LOCK_LUA_def sampleStore_def rval_string_def
      lockKey_def activeKey_def memberKey_def fun_upd_def)

text \<open>
  C5 at the module as it stands. \<open>getRedisClient\<close> is not defined, so
  \<open>releaseRenderLock\<close> throws before it reaches the script: the call errors and the lock
  that job \<open>job1\<close> holds on \<open>doc1\<close> stays, where a release with a client deletes it.
\<close>

theorem release_throws_as_module_stands:
  "releaseRenderLock (\<lambda>s. False) NotDefined ''doc1'' ''job1'' sampleStore
     = (sampleStore, Some ''getRedisClient is not defined'') \<and>
   sampleStore (lockKey ''doc1'') = Some (RStr ''job1'') \<and>
   fst (releaseRenderLock (\<lambda>s. False) Client ''doc1'' ''job1'' sampleStore) (lockKey ''doc1'') = None"
proof -
  have "sampleStore (lockKey ''doc1'') = Some (RStr ''job1'')"
    by (simp add: sampleStore_def release_keys_distinct)
  then show ?thesis
    by (simp add: release_not_defined release_sample_run release_keys_distinct)
qed

section \<open>Properties of payload signing\<close>

lemma hex_value_digit_aux: "\<forall>d<16. hex_value (hex_digit d) = d"
  by code_simp

lemma hex_value_digit: "d < 16 \<Longrightarrow> hex_value (hex_digit d) = d"
  using hex_value_digit_aux by blast

lemma of_char_code_iff: "(of_char c :: nat) = of_char d \<longleftrightarrow> c = d"
  by simp

lemma char_code_cases:
  "(of_char c :: nat) = 34 \<longleftrightarrow> c = CHR 0x22"
  "(of_char c :: nat) = 92 \<longleftrightarrow> c = CHR 0x5C"
  "(of_char c :: nat) = 8 \<longleftrightarrow> c = CHR 0x08"
  "(of_char c :: nat) = 12 \<longleftrightarrow> c = CHR 0x0C"
  "(of_char c :: nat) = 10 \<longleftrightarrow> c = CHR 0x0A"
  "(of_char c :: nat) = 13 \<longleftrightarrow> c = CHR 0x0D"
  "(of_char c :: nat) = 9 \<longleftrightarrow> c = CHR 0x09"
  using of_char_code_iff [of c "CHR 0x22"] of_char_code_iff [of c "CHR 0x5C"]
    of_char_code_iff [of c "CHR 0x08"] of_char_code_iff [of c "CHR 0x0C"]
    of_char_code_iff [of c "CHR 0x0A"] of_char_code_iff [of c "CHR 0x0D"]
    of_char_code_iff [of c "CHR 0x09"]
  by simp_all

lemma json_unescape_head_escape: "json_unescape_head (json_escape c @ r) = Some (c, r)"
proof -
  define n where "n = (of_char c :: nat)"
  consider "n = 34" | "n = 92" | "n = 8" | "n = 12" | "n = 10" | "n = 13" | "n = 9"
    | "n < 32" "n \<noteq> 8" "n \<noteq> 9" "n \<noteq> 10" "n \<noteq> 12" "n \<noteq> 13" | "32 \<le> n" "n \<noteq> 34" "n \<noteq> 92"
    by linarith
  then show ?thesis
  proof cases
    case 1
    then have "c = CHR 0x22" by (simp add: n_def char_code_cases)
    then show ?thesis by (simp add: json_escape_def json_unescape_head_def)
  next
    case 2
    then have "c = CHR 0x5C" by (simp add: n_def char_code_cases)
    then show ?thesis by (simp add: json_escape_def json_unescape_head_def)
  next
    case 3
    then have "c = CHR 0x08" by (simp add: n_def char_code_cases)
    then show ?thesis by (simp add: json_escape_def json_unescape_head_def)
  next
    case 4
    then have "c = CHR 0x0C" by (simp add: n_def char_code_cases)
    then show ?thesis by (simp add: json_escape_def json_unescape_head_def)
  next
    case 5
    then have "c = CHR 0x0A" by (simp add: n_def char_code_cases)
    then show ?thesis by (simp add: json_escape_def json_unescape_head_def)
  next
    case 6
    then have "c = CHR 0x0D" by (simp add: n_def char_code_cases)
    then show ?thesis by (simp add: json_escape_def json_unescape_head_def)
  next
    case 7
    then have "c = CHR 0x09" by (simp add: n_def char_code_cases)
    then show ?thesis by (simp add: json_escape_def json_unescape_head_def)
  next
    case 8
    have c: "char_of n = c" by (simp add: n_def)
    have d: "n div 16 < 16" "n mod 16 < 16" using 8 by auto
    have e: "16 * hex_value (hex_digit (n div 16)) + hex_value (hex_digit (n mod 16)) = n"
      using d by (simp add: hex_value_digit)
    have f: "json_escape c = [CHR 0x5C, CHR ''u'', CHR ''0'', CHR ''0'', hex_digit (n div 16), hex_digit (n mod 16)]"
      using 8 by (simp add: json_escape_def Let_def n_def [symmetric])
    show ?thesis
      unfolding f by (simp add: json_unescape_head_def e c)
  next
    case 9
    then have g: "c \<noteq> CHR 0x22" "c \<noteq> CHR 0x5C"
      using char_code_cases(1,2) [of c] by (auto simp: n_def)
    have f: "json_escape c = [c]"
      using 9 by (simp add: json_escape_def Let_def n_def [symmetric])
    show ?thesis
      unfolding f using g by (simp add: json_unescape_head_def)
  qed
qed

lemma json_unescape_head_quote: "json_unescape_head (CHR 0x22 # r) = None"
  by (simp add: json_unescape_head_def)

lemma escape_body_inj:
  "concat (map json_escape s) @ CHR 0x22 # r = concat (map json_escape s') @ CHR 0x22 # r'
     \<Longrightarrow> s = s' \<and> r = r'"
proof (induction s arbitrary: s')
  case Nil
  show ?case
  proof (cases s')
    case Nil
    with Nil.prems show ?thesis by simp
  next
    case (Cons c' t')
    with Nil.prems have "CHR 0x22 # r = json_escape c' @ (concat (map json_escape t') @ CHR 0x22 # r')"
      by simp
    then have "json_unescape_head (CHR 0x22 # r)
                = json_unescape_head (json_escape c' @ (concat (map json_escape t') @ CHR 0x22 # r'))"
      by simp
    then show ?thesis
      by (simp only: json_unescape_head_quote json_unescape_head_escape) simp
  qed
next
  case (Cons c t)
  show ?case
  proof (cases s')
    case Nil
    with Cons.prems have "json_escape c @ (concat (map json_escape t) @ CHR 0x22 # r) = CHR 0x22 # r'"
      by simp
    then have "json_unescape_head (json_escape c @ (concat (map json_escape t) @ CHR 0x22 # r))
                = json_unescape_head (CHR 0x22 # r')"
      by simp
    then show ?thesis
      by (simp only: json_unescape_head_quote json_unescape_head_escape) simp
  next
    case (Cons c' t')
    with Cons.prems have "json_escape c @ (concat (map json_escape t) @ CHR 0x22 # r)
        = json_escape c' @ (concat (map json_escape t') @ CHR 0x22 # r')"
      by simp
    then have "json_unescape_head (json_escape c @ (concat (map json_escape t) @ CHR 0x22 # r))
        = json_unescape_head (json_escape c' @ (concat (map json_escape t') @ CHR 0x22 # r'))"
      by simp
    then have "c = c'" and "concat (map json_escape t) @ CHR 0x22 # r = concat (map json_escape t') @ CHR 0x22 # r'"
      by (simp_all only: json_unescape_head_escape option.inject prod.inject)
    with Cons.IH [of t'] Cons show ?thesis by simp
  qed
qed

lemma json_quote_inj: "json_quote s @ r = json_quote s' @ r' \<Longrightarrow> s = s' \<and> r = r'"
  using escape_body_inj [of s r s' r'] by (simp add: json_quote_def)

lemma json_quote_hd: "\<exists>t. json_quote s = CHR 0x22 # t"
  by (simp add: json_quote_def)

lemma entryString_inj: "entryString e @ r = entryString e' @ r' \<Longrightarrow> e = e' \<and> r = r'"
proof -
  assume a: "entryString e @ r = entryString e' @ r'"
  then have "json_quote (fst e) @ ('':'' @ json_quote (snd e) @ r)
           = json_quote (fst e') @ ('':'' @ json_quote (snd e') @ r')"
    by (simp add: entryString_def)
  then have 1: "fst e = fst e'" and "'':'' @ json_quote (snd e) @ r = '':'' @ json_quote (snd e') @ r'"
    using json_quote_inj by blast+
  then have "json_quote (snd e) @ r = json_quote (snd e') @ r'" by simp
  then have "snd e = snd e'" and "r = r'" using json_quote_inj by blast+
  with 1 show ?thesis by (simp add: prod_eq_iff)
qed

lemma entryString_hd: "\<exists>t. entryString e = CHR 0x22 # t"
  using json_quote_hd [of "fst e"] by (auto simp: entryString_def)

lemma join_Cons: "join sep (x # xs) = x @ (if xs = [] then [] else sep @ join sep xs)"
  by (cases xs) simp_all

lemma join_entries_inj:
  "join '','' (map entryString xs) @ ''}'' = join '','' (map entryString ys) @ ''}'' \<Longrightarrow> xs = ys"
proof (induction xs arbitrary: ys)
  case Nil
  show ?case
  proof (cases ys)
    case Nil then show ?thesis by simp
  next
    case (Cons y ys')
    obtain t where "entryString y = CHR 0x22 # t" using entryString_hd by blast
    with Nil.prems Cons show ?thesis by (simp add: join_Cons)
  qed
next
  case (Cons x xs')
  show ?case
  proof (cases ys)
    case Nil
    obtain t where "entryString x = CHR 0x22 # t" using entryString_hd by blast
    with Cons.prems Nil show ?thesis by (simp add: join_Cons)
  next
    case ys: (Cons y ys')
    let ?tx = "(if map entryString xs' = [] then [] else '','' @ join '','' (map entryString xs')) @ ''}''"
    let ?ty = "(if map entryString ys' = [] then [] else '','' @ join '','' (map entryString ys')) @ ''}''"
    from Cons.prems ys have "entryString x @ ?tx = entryString y @ ?ty"
      by (simp add: join_Cons)
    then have xy: "x = y" and t: "?tx = ?ty" using entryString_inj by blast+
    have "xs' = ys'"
    proof (cases "xs' = []")
      case True
      with t show ?thesis by (cases "ys' = []") auto
    next
      case False
      with t have "ys' \<noteq> []" by (cases "ys' = []") auto
      with t False have "join '','' (map entryString xs') @ ''}'' = join '','' (map entryString ys') @ ''}''"
        by simp
      then show ?thesis by (rule Cons.IH)
    qed
    with xy ys show ?thesis by simp
  qed
qed

lemma stringFields_iff: "stringFields kvs \<longleftrightarrow> (\<forall>(k, v) \<in> set kvs. \<exists>s. v = JString s)"
  by (auto simp: stringFields_def list_all_iff split: jsvalue.splits)

lemma stringify_flat:
  assumes "stringFields kvs"
  shows "stableStringify (JObject kvs) =
     Some (''{'' @ join '','' (map entryString (flatEntries (sort_key fst kvs))) @ ''}'')"
proof -
  let ?A = "\<lambda>(k, v). json_quote k @ '':'' @ (case stableStringify v of None \<Rightarrow> ''undefined'' | Some s \<Rightarrow> s)"
  have f: "filter (\<lambda>(k, v). v \<noteq> JUndefined) kvs = kvs"
    using assms by (auto simp: stringFields_iff intro!: filter_True)
  have m: "map ?A (sort_key fst kvs) = map entryString (flatEntries (sort_key fst kvs))"
    unfolding flatEntries_def map_map
  proof (rule map_cong [OF refl])
    fix x assume "x \<in> set (sort_key fst kvs)"
    then have "x \<in> set kvs" by simp
    then obtain k t where x: "x = (k, JString t)"
      using assms by (auto simp: stringFields_iff)
    show "?A x = (entryString \<circ> (\<lambda>e. (fst e, strOf (snd e)))) x"
      by (simp add: x entryString_def strOf_def)
  qed
  have "stableStringify (JObject kvs) = Some (''{'' @ join '','' (map ?A (sort_key fst kvs)) @ ''}'')"
    by (simp add: f)
  then show ?thesis by (simp only: m)
qed

lemma flat_entries_back:
  assumes "stringFields kvs"
  shows "map (\<lambda>e. (fst e, JString (snd e))) (flatEntries kvs) = kvs"
  using assms by (induction kvs) (auto simp: flatEntries_def stringFields_def strOf_def split: jsvalue.splits)

lemma stringFields_sort: "stringFields kvs \<Longrightarrow> stringFields (sort_key fst kvs)"
  by (simp add: stringFields_iff)

lemma flat_stringify_inj:
  assumes "stringFields p" "stringFields p'" "distinct (map fst p)" "distinct (map fst p')"
    and "stableStringify (JObject p) = stableStringify (JObject p')"
  shows "map_of p = map_of p'"
proof -
  let ?f = "\<lambda>kvs. flatEntries (sort_key fst kvs)"
  from assms(5) have "Some (''{'' @ join '','' (map entryString (?f p)) @ ''}'')
                    = Some (''{'' @ join '','' (map entryString (?f p')) @ ''}'')"
    by (simp only: stringify_flat [OF assms(1)] stringify_flat [OF assms(2)])
  then have "join '','' (map entryString (?f p)) @ ''}'' = join '','' (map entryString (?f p')) @ ''}''"
    by simp
  then have "?f p = ?f p'" by (rule join_entries_inj)
  then have "map (\<lambda>e. (fst e, JString (snd e))) (?f p) = map (\<lambda>e. (fst e, JString (snd e))) (?f p')"
    by simp
  then have "sort_key fst p = sort_key fst p'"
    by (simp only: flat_entries_back [OF stringFields_sort [OF assms(1)]]
          flat_entries_back [OF stringFields_sort [OF assms(2)]])
  then have "set (sort_key fst p) = set (sort_key fst p')" by simp
  then have "set p = set p'" by simp
  then show ?thesis using assms(3,4) by (simp add: map_of_inject_set)
qed

lemma sign_accepts:
  assumes "isObjectValue p" "\<not> hasForbiddenFields p" "key \<noteq> []"
  shows "\<exists>str. stableStringify p = Some str \<and> signJobPayload h (Some key) p = Inr (h key str)"
  using assms by (cases p) (auto simp: signJobPayload_def isObjectValue_def)

lemma verify_of_sign:
  assumes "signJobPayload h sec p = Inr sig"
  shows "verifyJobPayload h sec p e = Inr (e = Some sig \<and> sig \<noteq> [])"
  using assms by (cases e) (auto simp: verifyJobPayload_def timingSafeEqual_def Let_def)

lemma verify_not_a_signature:
  "verifyJobPayload h sec q None = Inr False" "verifyJobPayload h sec q (Some []) = Inr False"
  by (simp_all add: verifyJobPayload_def Let_def)

lemma verify_of_rejected:
  assumes "signJobPayload h sec p = Inl err" and "c \<noteq> []"
  shows "verifyJobPayload h sec p (Some c) = Inl err"
  using assms by (simp add: verifyJobPayload_def Let_def)

text \<open>
  C8 (as the code has it). For every payload that \<open>signJobPayload\<close> accepts and every
  candidate signature, \<open>verifyJobPayload\<close> does not throw: it returns true exactly when
  the candidate is the non-empty recomputed signature and false on any mismatch,
  including a different length. For a candidate that is not a string, or is empty, it
  returns false whatever the payload is. For a non-empty candidate and a payload that
  \<open>signJobPayload\<close> rejects, it throws the error of \<open>signJobPayload\<close>.
\<close>

theorem verify_follows_sign:
  "(signJobPayload h sec p = Inr sig \<longrightarrow> verifyJobPayload h sec p e = Inr (e = Some sig \<and> sig \<noteq> []))
   \<and> verifyJobPayload h sec q None = Inr False
   \<and> verifyJobPayload h sec q (Some []) = Inr False
   \<and> (signJobPayload h sec p = Inl err \<and> c \<noteq> [] \<longrightarrow> verifyJobPayload h sec p (Some c) = Inl err)"
  using verify_of_sign [of h sec p sig e] verify_not_a_signature [of h sec q]
    verify_of_rejected [of h sec p err c]
  by blast

lemma sample_sign:
  "\<exists>str. signJobPayload sampleMac (Some ''k'') (JObject samplePayload) = Inr (sampleMac ''k'' str)"
  using sign_accepts [of "JObject samplePayload" "''k''" sampleMac]
  by (auto simp: isObjectValue_def hasForbiddenFields_def getProp_def truthy_def samplePayload_def)

theorem verify_follows_sign_witness:
  "\<exists>sig. signJobPayload sampleMac (Some ''k'') (JObject samplePayload) = Inr sig \<and>
     verifyJobPayload sampleMac (Some ''k'') (JObject samplePayload) (Some sig) = Inr True \<and>
     verifyJobPayload sampleMac (Some ''k'') (JObject samplePayload) (Some ''00'') = Inr False \<and>
     verifyJobPayload sampleMac (Some ''k'') (JArray []) None = Inr False \<and>
     signJobPayload sampleMac (Some ''k'') JNull = Inl ''HMAC payload must be a plain object'' \<and>
     verifyJobPayload sampleMac (Some ''k'') JNull (Some ''00'') = Inl ''HMAC payload must be a plain object''"
proof -
  obtain str where s: "signJobPayload sampleMac (Some ''k'') (JObject samplePayload) = Inr (sampleMac ''k'' str)"
    using sample_sign by blast
  have n: "sampleMac ''k'' str \<noteq> []" "sampleMac ''k'' str \<noteq> ''00''"
    by (simp_all add: sampleMac_def)
  have r: "signJobPayload sampleMac (Some ''k'') JNull = Inl ''HMAC payload must be a plain object''"
    by (simp add: signJobPayload_def isObjectValue_def)
  have z: "''00'' \<noteq> []" by simp
  show ?thesis
    using verify_follows_sign [of sampleMac "Some ''k''" "JObject samplePayload" "sampleMac ''k'' str"
        "Some (sampleMac ''k'' str)" "JArray []" "''x''" "''00''"]
      verify_follows_sign [of sampleMac "Some ''k''" "JObject samplePayload" "sampleMac ''k'' str"
        "Some ''00''" "JArray []" "''x''" "''00''"]
      verify_follows_sign [of sampleMac "Some ''k''" JNull "''x''" None "JArray []"
        "''HMAC payload must be a plain object''" "''00''"]
      s n r z
    by auto
qed

text \<open>
  With a non-empty candidate signature and a payload that carries a forbidden field,
  \<open>verifyJobPayload\<close> throws the error of \<open>signJobPayload\<close> instead of returning false.
\<close>

theorem verify_throws_on_forbidden_field_counterexample:
  "verifyJobPayload sampleMac (Some ''k'')
     (JObject [(''jobId'', JString ''j1''), (''pages'', JArray [JNumber 1])]) (Some ''abc'')
   = Inl ''HMAC payload must be immutable only''"
  by (simp add: verifyJobPayload_def Let_def signJobPayload_def isObjectValue_def hasForbiddenFields_def
      getProp_def truthy_def)

text \<open>
  C4 (as the code has it). For every payload that \<open>signJobPayload\<close> accepts, with a
  non-empty digest, verifying the payload against its own signature returns true. For
  payloads whose fields are all strings (as the signed triple is) and free of the
  forbidden fields, a payload that differs from the signed one in any field has another
  canonical string, and fails verification against the original signature unless the
  keyed hash collides on the two canonical strings.
\<close>

theorem sign_verify_roundtrip_and_tamper:
  assumes "signJobPayload h sec q = Inr sigq" and "sigq \<noteq> []"
    and "stringFields p" and "stringFields p'"
    and "distinct (map fst p)" and "distinct (map fst p')"
    and "\<not> hasForbiddenFields (JObject p)" and "\<not> hasForbiddenFields (JObject p')"
    and "map_of p' \<noteq> map_of p"
    and "sec = Some key" and "key \<noteq> []"
    and "stableStringify (JObject p) = Some m" and "stableStringify (JObject p') = Some m'"
    and "m' \<noteq> m \<Longrightarrow> h key m' \<noteq> h key m" and "h key m \<noteq> []"
  shows "verifyJobPayload h sec q (Some sigq) = Inr True \<and>
         signJobPayload h sec (JObject p) = Inr (h key m) \<and>
         verifyJobPayload h sec (JObject p) (Some (h key m)) = Inr True \<and>
         verifyJobPayload h sec (JObject p') (Some (h key m)) = Inr False"
proof -
  have 1: "verifyJobPayload h sec q (Some sigq) = Inr True"
    using verify_of_sign [OF assms(1)] assms(2) by simp
  have s: "signJobPayload h sec (JObject p) = Inr (h key m)"
    using sign_accepts [of "JObject p" key h] assms(7,10,11,12) by (auto simp: isObjectValue_def)
  have s': "signJobPayload h sec (JObject p') = Inr (h key m')"
    using sign_accepts [of "JObject p'" key h] assms(8,10,11,13) by (auto simp: isObjectValue_def)
  have "m' \<noteq> m"
    using flat_stringify_inj [OF assms(4,3,6,5)] assms(9,12,13) by auto
  then have ne: "h key m' \<noteq> h key m" by (rule assms(14))
  have 2: "verifyJobPayload h sec (JObject p) (Some (h key m)) = Inr True"
    using verify_of_sign [OF s] assms(15) by simp
  have 3: "verifyJobPayload h sec (JObject p') (Some (h key m)) = Inr False"
    using verify_of_sign [OF s', of "Some (h key m)"] ne by simp
  from 1 2 3 s show ?thesis by blast
qed

lemma sampleMac_inj: "inj (sampleMac key)"
  by (simp add: inj_def sampleMac_def)

theorem sign_verify_roundtrip_and_tamper_witness:
  "\<exists>sig. signJobPayload sampleMac (Some ''k'') (JObject samplePayload) = Inr sig \<and>
          verifyJobPayload sampleMac (Some ''k'') (JObject samplePayload) (Some sig) = Inr True \<and>
          verifyJobPayload sampleMac (Some ''k'')
            (JObject (samplePayload [1 := (''outputKey'', JString ''documents/final/other.pdf'')])) (Some sig) = Inr False"
proof -
  let ?p' = "samplePayload [1 := (''outputKey'', JString ''documents/final/other.pdf'')]"
  obtain m where m: "stableStringify (JObject samplePayload) = Some m"
      "signJobPayload sampleMac (Some ''k'') (JObject samplePayload) = Inr (sampleMac ''k'' m)"
    using sign_accepts [of "JObject samplePayload" "''k''" sampleMac]
    by (auto simp: isObjectValue_def hasForbiddenFields_def getProp_def truthy_def samplePayload_def)
  obtain m' where m': "stableStringify (JObject ?p') = Some m'"
    by (cases "stableStringify (JObject ?p')") (simp_all add: samplePayload_def)
  have a: "sampleMac ''k'' m \<noteq> []" by (simp add: sampleMac_def)
  have b: "stringFields samplePayload" "stringFields ?p'"
    by (simp_all add: stringFields_def samplePayload_def)
  have c: "distinct (map fst samplePayload)" "distinct (map fst ?p')"
    by (simp_all add: samplePayload_def)
  have d: "\<not> hasForbiddenFields (JObject samplePayload)" "\<not> hasForbiddenFields (JObject ?p')"
    by (simp_all add: hasForbiddenFields_def getProp_def truthy_def samplePayload_def)
  have e: "map_of ?p' \<noteq> map_of samplePayload"
  proof
    assume "map_of ?p' = map_of samplePayload"
    then have "map_of ?p' ''outputKey'' = map_of samplePayload ''outputKey''" by simp
    then show False by (simp add: samplePayload_def)
  qed
  have f: "m' \<noteq> m \<Longrightarrow> sampleMac ''k'' m' \<noteq> sampleMac ''k'' m" by (simp add: sampleMac_def)
  have k: "''k'' \<noteq> []" by simp
  show ?thesis
    using sign_verify_roundtrip_and_tamper [OF m(2) a b c d e refl k m(1) m' f a] by blast
qed

text \<open>
  Not every change of a plain object is detected: \<open>stableStringify\<close> writes an array
  holding \<open>undefined\<close> like the empty array, so the two payloads below have the same
  signature, whatever the keyed hash is.
\<close>

theorem tamper_undetected_counterexample:
  "JObject [(''jobId'', JString ''j1''), (''tags'', JArray [JUndefined])]
     \<noteq> JObject [(''jobId'', JString ''j1''), (''tags'', JArray [])] \<and>
   isObjectValue (JObject [(''jobId'', JString ''j1''), (''tags'', JArray [JUndefined])]) \<and>
   \<not> hasForbiddenFields (JObject [(''jobId'', JString ''j1''), (''tags'', JArray [JUndefined])]) \<and>
   verifyJobPayload sampleMac (Some ''k'')
     (JObject [(''jobId'', JString ''j1''), (''tags'', JArray [])])
     (signatureOf sampleMac (Some ''k'') (JObject [(''jobId'', JString ''j1''), (''tags'', JArray [JUndefined])]))
   = Inr True"
proof -
  let ?p0 = "JObject [(''jobId'', JString ''j1''), (''tags'', JArray [JUndefined])]"
  let ?p1 = "JObject [(''jobId'', JString ''j1''), (''tags'', JArray [])]"
  have s: "stableStringify ?p0 = stableStringify ?p1"
    by simp
  have f: "\<not> hasForbiddenFields ?p0" "\<not> hasForbiddenFields ?p1"
    by (simp_all add: hasForbiddenFields_def getProp_def truthy_def)
  have o: "isObjectValue ?p0" by (simp add: isObjectValue_def)
  obtain str0 where 0: "stableStringify ?p0 = Some str0"
      "signJobPayload sampleMac (Some ''k'') ?p0 = Inr (sampleMac ''k'' str0)"
    using sign_accepts [of ?p0 "''k''" sampleMac] f(1) by (auto simp: isObjectValue_def)
  obtain str1 where 1: "stableStringify ?p1 = Some str1"
      "signJobPayload sampleMac (Some ''k'') ?p1 = Inr (sampleMac ''k'' str1)"
    using sign_accepts [of ?p1 "''k''" sampleMac] f(2) by (auto simp: isObjectValue_def)
  have g: "signatureOf sampleMac (Some ''k'') ?p0 = Some (sampleMac ''k'' str0)"
    by (simp add: signatureOf_def 0(2))
  have "str1 = str0" using s 0(1) 1(1) by simp
  then have "verifyJobPayload sampleMac (Some ''k'') ?p1 (Some (sampleMac ''k'' str0)) = Inr True"
    using verify_of_sign [OF 1(2), of "Some (sampleMac ''k'' str0)"] by (simp add: sampleMac_def)
  then have "verifyJobPayload sampleMac (Some ''k'') ?p1 (signatureOf sampleMac (Some ''k'') ?p0) = Inr True"
    by (simp only: g)
  with f(1) o show ?thesis by simp
qed

section \<open>Properties of the queue worker\<close>

lemma releaseLock_keeps:
  "db (fst (releaseLock e a b w)) = db w" "uploads (fst (releaseLock e a b w)) = uploads w"
  by (simp_all add: releaseLock_def split: prod.splits)

lemma releaseLock_thrown:
  "snd (releaseLock e a b w) =
     (if getRedisClient e = NotDefined then Some ''getRedisClient is not defined'' else None)"
  using release_no_throw [of "getRedisClient e" "luaPositive e" a b "store w"]
  by (auto simp: releaseLock_def release_not_defined split: prod.splits)

lemma releaseAndFinish_error:
  "fst (releaseAndFinish e a b (Inl err, w)) =
     Inl (if getRedisClient e = NotDefined then ''getRedisClient is not defined'' else err)"
  "db (snd (releaseAndFinish e a b (Inl err, w))) = db w"
  "uploads (snd (releaseAndFinish e a b (Inl err, w))) = uploads w"
  using releaseLock_thrown [of e a b w] releaseLock_keeps [of e a b w]
  by (auto simp: releaseAndFinish_def split: prod.splits option.splits)

text \<open>
  The transitions of \<open>processMerge\<close> are conditional writes: with another persisted
  status nothing is written.
\<close>

lemma updateIfStatus_conditional:
  "db w (castId e r) = Some d \<Longrightarrow> status d \<noteq> expected \<Longrightarrow> updateIfStatus e r expected upd w = (False, w)"
  "db w (castId e r) = Some d \<Longrightarrow> status d = expected \<Longrightarrow>
     updateIfStatus e r expected upd w = (True, w\<lparr>db := (db w)(castId e r \<mapsto> upd d)\<rparr>)"
  by (simp_all add: updateIfStatus_def)

lemma processMerge_mismatch:
  assumes "data_printJobId job = Some r" and "r \<noteq> []"
    and "findById e r w = Some d"
    and "status d = CREATED \<or> status d = BATCH_RUNNING"
    and "payloadHmac d = Some h" and "h \<noteq> []"
    and "getStableHmacPayload d = Inr payload"
    and "r \<noteq> jd_id d"
  shows "processMerge e job w = (Inl (rootMismatchMessage r (jd_id d)), w)"
  using assms by (auto simp: processMerge_def Let_def)

lemma failedHandler_writes_whatever_is_persisted:
  assumes "data_printJobId job = Some r" and "r \<noteq> []"
    and "msg \<noteq> ''Invalid lifecycle transition''"
    and "findById e r w = Some d" and "status d \<noteq> READY"
    and "db (others3 e w) (jd_id d) = Some d3"
  shows "db (fst (failedHandler e job msg w)) (jd_id d) = Some (failedUpdate e job msg (status d) d3)"
  using assms
  by (auto simp: failedHandler_def Let_def saveModified_def releaseLock_keeps)

lemma failedHandler_uploads:
  "others3 e = id \<Longrightarrow> uploads (fst (failedHandler e job msg w)) = uploads w"
  by (auto simp: failedHandler_def Let_def saveModified_def releaseLock_keeps split: option.splits)

lemma failedHandler_save:
  assumes "data_printJobId job = Some r" and "r \<noteq> []"
    and "msg \<noteq> ''Invalid lifecycle transition''"
    and "findById e r w = Some d" and "castId e r = jd_id d"
    and "status d \<noteq> READY" and "others3 e = id"
  shows "db (fst (failedHandler e job msg w)) (jd_id d) = Some (failedUpdate e job msg (status d) d)
       \<and> uploads (fst (failedHandler e job msg w)) = uploads w"
proof -
  have "db (others3 e w) (jd_id d) = Some d"
    using assms(4,5,7) by (simp add: findById_def)
  then show ?thesis
    using failedHandler_writes_whatever_is_persisted [OF assms(1,2,3,4,6)]
      failedHandler_uploads [OF assms(7)] by simp
qed

lemma failedUpdate_status:
  "status (failedUpdate e job msg s d) = FAILED"
  "errorCode (failedUpdate e job msg s d) = Some (mapErrorCode (Some msg) ''UNKNOWN'')"
  by (simp_all add: failedUpdate_def)

lemma mismatch_not_lifecycle: "rootMismatchMessage r j \<noteq> ''Invalid lifecycle transition''"
  by (simp add: rootMismatchMessage_def)

lemma merge_mismatch_run:
  assumes "data_printJobId job = Some r" and "r \<noteq> []"
    and "findById e r w = Some d" and "castId e r = jd_id d"
    and "status d = CREATED \<or> status d = BATCH_RUNNING"
    and "payloadHmac d = Some h" and "h \<noteq> []"
    and "getStableHmacPayload d = Inr payload"
    and "getProp payload ''jobId'' \<noteq> JString r"
    and "others3 e = id"
  shows "processMerge e job w = (Inl (rootMismatchMessage r (jd_id d)), w) \<and>
         fst (runMergeJob e job w) = Inl (rootMismatchMessage r (jd_id d)) \<and>
         uploads (snd (runMergeJob e job w)) = uploads w \<and>
         (\<exists>d'. db (snd (runMergeJob e job w)) (jd_id d) = Some d' \<and> status d' = FAILED \<and>
               errorCode d' = Some (mapErrorCode (Some (rootMismatchMessage r (jd_id d))) ''UNKNOWN''))"
proof -
  let ?msg = "rootMismatchMessage r (jd_id d)"
  let ?job = "job\<lparr>attemptsMade := attemptsMade job + 1\<rparr>"
  have pj: "getProp payload ''jobId'' = JString (jd_id d)"
    using assms(8) by (auto simp: getStableHmacPayload_def getProp_def split: list.splits option.splits)
  then have ne: "r \<noteq> jd_id d" using assms(9) by auto
  have pm: "processMerge e job w = (Inl ?msg, w)"
    using assms(1,2,3,5,6,7,8) ne by (rule processMerge_mismatch)
  have st: "status d \<noteq> READY" using assms(5) by auto
  have fh: "db (fst (failedHandler e ?job ?msg w)) (jd_id d) = Some (failedUpdate e ?job ?msg (status d) d)
       \<and> uploads (fst (failedHandler e ?job ?msg w)) = uploads w"
    using assms(1,2) mismatch_not_lifecycle assms(3,4) st assms(10)
    by (intro failedHandler_save) auto
  have run: "runMergeJob e job w = (Inl ?msg, fst (failedHandler e ?job ?msg w))"
    by (simp add: runMergeJob_def pm)
  show ?thesis
    using pm fh by (simp add: run failedUpdate_status)
qed

lemma processMerge_to_body:
  assumes "data_printJobId job = Some r" and "r \<noteq> []"
    and "findById e r w = Some d" and "castId e r = jd_id d" and "r = jd_id d"
    and "status d = CREATED \<or> status d = BATCH_RUNNING"
    and "payloadHmac d = Some h" and "h \<noteq> []"
    and "getStableHmacPayload d = Inr payload"
    and "verifyJobPayload (hmacHex e) (secret e) payload (Some h) = Inr True"
    and "others1 e = id"
  shows "processMerge e job w =
     releaseAndFinish e (getDocumentIdFromJobDoc d) r
       (mergeBody e r d (w\<lparr>db := (db w)(jd_id d \<mapsto> toMergeRunning e (status d) d)\<rparr>))"
proof -
  have f: "db w (jd_id d) = Some d" using assms(3,4) by (simp add: findById_def)
  have u: "updateIfStatus e r (status d) (toMergeRunning e (status d)) w
         = (True, w\<lparr>db := (db w)(jd_id d \<mapsto> toMergeRunning e (status d) d)\<rparr>)"
    using f assms(4) by (simp add: updateIfStatus_def)
  have fs: "(if status d = CREATED then CREATED else BATCH_RUNNING) = status d"
    using assms(6) by auto
  show ?thesis
    using assms(1,2,3,5,6,7,8,9,10,11) u fs
    by (auto simp: processMerge_def Let_def split: prod.splits)
qed

lemma mergeBody_not_pdf:
  assumes "renderResult e = Inr bytes" and "\<not> startsWith (take 5 bytes) ''%PDF-''"
  shows "mergeBody e r d w =
     (Inl SECURITY_VIOLATION, updateProgress (jd_id d) (max (progress d) 80) ''MERGE_JOB_STARTED'' [] w)"
  using assms by (simp add: mergeBody_def Let_def)

lemma security_violation_code: "mapErrorCode (Some SECURITY_VIOLATION) ''UNKNOWN'' = ''INVALID_OUTPUT''"
  by code_simp

lemma reference_error_code: "mapErrorCode (Some ''getRedisClient is not defined'') ''UNKNOWN'' = ''UNKNOWN''"
  by code_simp

lemma security_violation_not_lifecycle: "SECURITY_VIOLATION \<noteq> ''Invalid lifecycle transition''"
  by (simp add: SECURITY_VIOLATION_def)

lemma invalid_output_run:
  assumes "data_printJobId job = Some r" and "r \<noteq> []"
    and "findById e r w = Some d" and "castId e r = jd_id d" and "r = jd_id d"
    and "status d = CREATED \<or> status d = BATCH_RUNNING"
    and "payloadHmac d = Some h" and "h \<noteq> []"
    and "getStableHmacPayload d = Inr payload"
    and "verifyJobPayload (hmacHex e) (secret e) payload (Some h) = Inr True"
    and "others1 e = id" and "others3 e = id"
    and "opts_attempts job \<le> 1"
    and "renderResult e = Inr bytes" and "\<not> startsWith (take 5 bytes) ''%PDF-''"
    and "err = (if getRedisClient e = NotDefined then ''getRedisClient is not defined'' else SECURITY_VIOLATION)"
  shows "fst (runMergeJob e job w) = Inl err \<and>
         uploads (snd (runMergeJob e job w)) = uploads w \<and>
         (\<exists>d'. db (snd (runMergeJob e job w)) (jd_id d) = Some d' \<and>
               status d' = FAILED \<and> errorCode d' = Some (mapErrorCode (Some err) ''UNKNOWN'') \<and>
               outputInfo d' = outputInfo d \<and>
               map (\<lambda>t. (lc_from t, lc_to t)) (lifecycleHistory d') =
                 map (\<lambda>t. (lc_from t, lc_to t)) (lifecycleHistory d) @
                   [(status d, MERGE_RUNNING), (MERGE_RUNNING, FAILED)])"
proof -
  let ?job = "job\<lparr>attemptsMade := attemptsMade job + 1\<rparr>"
  let ?d1 = "toMergeRunning e (status d) d"
  let ?w1 = "w\<lparr>db := (db w)(jd_id d \<mapsto> ?d1)\<rparr>"
  let ?d2 = "?d1\<lparr>progress := max 0 (min 100 (max (progress d) 80)),
                  audit := audit ?d1 @ [\<lparr>au_event = ''MERGE_JOB_STARTED'', au_details = []\<rparr>]\<rparr>"
  let ?w2 = "?w1\<lparr>db := (db ?w1)(jd_id d \<mapsto> ?d2)\<rparr>"
  let ?out = "releaseAndFinish e (getDocumentIdFromJobDoc d) r (Inl SECURITY_VIOLATION, ?w2)"
  let ?w3 = "snd ?out"
  have up: "updateProgress (jd_id d) (max (progress d) 80) ''MERGE_JOB_STARTED'' [] ?w1 = ?w2"
    by (simp add: updateProgress_def saveModified_def)
  have pm0: "processMerge e job w = ?out"
    unfolding processMerge_to_body [OF assms(1-11)] mergeBody_not_pdf [OF assms(14,15)] up
    by simp
  have fo: "fst ?out = Inl err" "db ?w3 = db ?w2" "uploads ?w3 = uploads ?w2"
    using releaseAndFinish_error [of e "getDocumentIdFromJobDoc d" r SECURITY_VIOLATION ?w2] assms(16)
    by simp_all
  have pm: "processMerge e job w = (Inl err, ?w3)"
    using pm0 fo(1) by (metis prod.collapse)
  have nl: "err \<noteq> ''Invalid lifecycle transition''"
    using assms(16) security_violation_not_lifecycle by auto
  have id1: "jd_id ?d2 = jd_id d" by (simp add: toMergeRunning_def)
  have st: "status ?d2 \<noteq> READY" by (simp add: toMergeRunning_def)
  have f3: "findById e r ?w3 = Some ?d2"
    unfolding findById_def fo(2) assms(4) by simp
  have c3: "castId e r = jd_id ?d2" using assms(4) id1 by simp
  have fh: "db (fst (failedHandler e ?job err ?w3)) (jd_id ?d2)
              = Some (failedUpdate e ?job err (status ?d2) ?d2)
          \<and> uploads (fst (failedHandler e ?job err ?w3)) = uploads ?w3"
    using assms(1,2) nl f3 c3 st assms(12)
    by (intro failedHandler_save) auto
  have run: "runMergeJob e job w = (Inl err, fst (failedHandler e ?job err ?w3))"
    by (simp add: runMergeJob_def pm)
  let ?d' = "failedUpdate e ?job err (status ?d2) ?d2"
  have a: "status ?d' = FAILED" "errorCode ?d' = Some (mapErrorCode (Some err) ''UNKNOWN'')"
    by (simp_all add: failedUpdate_status)
  have b: "outputInfo ?d' = outputInfo d"
    by (simp add: failedUpdate_def toMergeRunning_def)
  have c: "map (\<lambda>t. (lc_from t, lc_to t)) (lifecycleHistory ?d') =
                 map (\<lambda>t. (lc_from t, lc_to t)) (lifecycleHistory d) @
                   [(status d, MERGE_RUNNING), (MERGE_RUNNING, FAILED)]"
    using assms(13) by (simp add: failedUpdate_def toMergeRunning_def)
  have u: "uploads ?w3 = uploads w" using fo(3) by simp
  show ?thesis
    unfolding run using fh a b c u id1 by simp
qed

lemma sample_signature:
  "\<exists>sg. sampleSignature = Some sg \<and> sg \<noteq> [] \<and>
     signJobPayload sampleMac (Some ''k'') (JObject samplePayload) = Inr sg"
  using sample_sign by (auto simp: sampleSignature_def signatureOf_def sampleMac_def)

lemma to_lower_upper_id:
  "map to_lower ''65A1B2C3D4E5F60718293A4B'' = ''65a1b2c3d4e5f60718293a4b''"
  by code_simp

lemma to_lower_lower_id:
  "map to_lower ''65a1b2c3d4e5f60718293a4b'' = ''65a1b2c3d4e5f60718293a4b''"
  by code_simp

lemma mismatch_code:
  "mapErrorCode (Some (rootMismatchMessage ''65A1B2C3D4E5F60718293A4B'' ''65a1b2c3d4e5f60718293a4b'')) ''UNKNOWN''
     = ''UNKNOWN''"
  by code_simp

lemma sample_payload: "getStableHmacPayload sampleJobDoc = Inr (JObject samplePayload)"
  by (simp add: getStableHmacPayload_def trimmedNonEmpty_def js_trim_def is_ws_def
      sampleJobDoc_def samplePayload_def)

lemma sample_doc_fields:
  "jd_id sampleJobDoc = ''65a1b2c3d4e5f60718293a4b''" "status sampleJobDoc = CREATED"
  "outputInfo sampleJobDoc = None" "lifecycleHistory sampleJobDoc = []"
  "payloadHmac sampleJobDoc = sampleSignature"
  by (simp_all add: sampleJobDoc_def)

lemma sample_find:
  "findById (sampleEnv\<lparr>getRedisClient := c\<rparr>) ''65a1b2c3d4e5f60718293a4b'' sampleWorld = Some sampleJobDoc"
  "findById (sampleEnv\<lparr>getRedisClient := c\<rparr>) ''65A1B2C3D4E5F60718293A4B'' sampleWorld = Some sampleJobDoc"
  "castId (sampleEnv\<lparr>getRedisClient := c\<rparr>) ''65a1b2c3d4e5f60718293a4b'' = ''65a1b2c3d4e5f60718293a4b''"
  "castId (sampleEnv\<lparr>getRedisClient := c\<rparr>) ''65A1B2C3D4E5F60718293A4B'' = ''65a1b2c3d4e5f60718293a4b''"
  by (simp_all add: findById_def sampleEnv_def sampleWorld_def to_lower_upper_id to_lower_lower_id
      del: list.map)

lemma sample_env_as_module: "sampleEnv\<lparr>getRedisClient := NotDefined\<rparr> = sampleEnv"
  by (simp add: sampleEnv_def)

lemma sample_invalid_output_run:
  "fst (runMergeJob (sampleEnv\<lparr>getRedisClient := c\<rparr>) (sampleMergeJob ''65a1b2c3d4e5f60718293a4b'') sampleWorld)
     = Inl (if c = NotDefined then ''getRedisClient is not defined'' else SECURITY_VIOLATION) \<and>
   uploads (snd (runMergeJob (sampleEnv\<lparr>getRedisClient := c\<rparr>) (sampleMergeJob ''65a1b2c3d4e5f60718293a4b'') sampleWorld)) = [] \<and>
   (\<exists>d'. db (snd (runMergeJob (sampleEnv\<lparr>getRedisClient := c\<rparr>) (sampleMergeJob ''65a1b2c3d4e5f60718293a4b'') sampleWorld))
            ''65a1b2c3d4e5f60718293a4b'' = Some d' \<and>
         status d' = FAILED \<and>
         errorCode d' = Some (if c = NotDefined then ''UNKNOWN'' else ''INVALID_OUTPUT'') \<and>
         outputInfo d' = None \<and>
         map (\<lambda>t. (lc_from t, lc_to t)) (lifecycleHistory d')
           = [(CREATED, MERGE_RUNNING), (MERGE_RUNNING, FAILED)])"
proof -
  let ?r = "''65a1b2c3d4e5f60718293a4b''"
  let ?e = "sampleEnv\<lparr>getRedisClient := c\<rparr>"
  let ?job = "sampleMergeJob ?r"
  let ?err = "if getRedisClient ?e = NotDefined then ''getRedisClient is not defined'' else SECURITY_VIOLATION"
  note j = sample_doc_fields(1)
  have c: "castId ?e ?r = jd_id sampleJobDoc" unfolding j by (rule sample_find(3))
  obtain sg where sg: "sampleSignature = Some sg" "sg \<noteq> []"
      "signJobPayload sampleMac (Some ''k'') (JObject samplePayload) = Inr sg"
    using sample_signature by blast
  have h1: "data_printJobId ?job = Some ?r" by (simp add: sampleMergeJob_def)
  have h2: "?r \<noteq> []" by simp
  have h6: "status sampleJobDoc = CREATED \<or> status sampleJobDoc = BATCH_RUNNING"
    by (simp add: sample_doc_fields)
  have h7: "payloadHmac sampleJobDoc = Some sg" by (simp add: sample_doc_fields sg)
  have h10: "verifyJobPayload (hmacHex ?e) (secret ?e) (JObject samplePayload) (Some sg) = Inr True"
    using verify_of_sign [OF sg(3), of "Some sg"] sg(2) by (simp add: sampleEnv_def)
  have h11: "others1 ?e = id" "others3 ?e = id" by (simp_all add: sampleEnv_def)
  have h13: "opts_attempts ?job \<le> 1" by (simp add: sampleMergeJob_def)
  have h14: "renderResult ?e = Inr ''<html>''" by (simp add: sampleEnv_def)
  have h15: "\<not> startsWith (take 5 ''<html>'') ''%PDF-''" by simp
  note T = invalid_output_run [OF h1 h2 sample_find(1) c j [symmetric] h6 h7 sg(2) sample_payload h10 h11 h13 h14 h15 refl]
  have u: "uploads sampleWorld = []" by (simp add: sampleWorld_def)
  have g: "getRedisClient ?e = c" by simp
  have codes: "mapErrorCode (Some (if c = NotDefined then ''getRedisClient is not defined'' else SECURITY_VIOLATION)) ''UNKNOWN''
                = (if c = NotDefined then ''UNKNOWN'' else ''INVALID_OUTPUT'')"
    by (simp add: security_violation_code reference_error_code)
  note T' = T [unfolded g, unfolded codes j]
  show ?thesis
    using T' by (simp add: u sample_doc_fields)
qed

text \<open>
  When the security violation itself reaches the failed handler, as it does from the
  batch stage (\<open>processBatch\<close> throws it outside any \<open>try\<close>), the handler records
  \<open>INVALID_OUTPUT\<close>, also as the module stands: its save precedes its release of the lock.
\<close>

lemma failed_handler_records_invalid_output:
  assumes "data_printJobId job = Some r" and "r \<noteq> []"
    and "findById e r w = Some d" and "castId e r = jd_id d"
    and "status d \<noteq> READY" and "others3 e = id"
  shows "\<exists>d'. db (fst (failedHandler e job SECURITY_VIOLATION w)) (jd_id d) = Some d' \<and>
           status d' = FAILED \<and> errorCode d' = Some ''INVALID_OUTPUT''"
  using failedHandler_save [OF assms(1,2) security_violation_not_lifecycle assms(3,4,5,6)]
  by (simp add: failedUpdate_status security_violation_code)

text \<open>
  Once \<open>getRedisClient\<close> is bound, the signature check does what is specified: when
  the bytes produced for a merge work item do not start with \<open>%PDF-\<close>, the stage
  throws the security violation before anything is uploaded, and (for a work item that
  carries its job id, a single delivery attempt and no concurrent writer) the job ends
  in \<open>FAILED\<close> with error code \<open>INVALID_OUTPUT\<close>, without an output and without having
  been \<open>READY\<close>.
\<close>

lemma invalid_output_fails_job_when_bound:
  assumes "data_printJobId job = Some r" and "r \<noteq> []"
    and "findById e r w = Some d" and "castId e r = jd_id d" and "r = jd_id d"
    and "status d = CREATED \<or> status d = BATCH_RUNNING"
    and "payloadHmac d = Some h" and "h \<noteq> []"
    and "getStableHmacPayload d = Inr payload"
    and "verifyJobPayload (hmacHex e) (secret e) payload (Some h) = Inr True"
    and "others1 e = id" and "others3 e = id"
    and "opts_attempts job \<le> 1"
    and "renderResult e = Inr bytes" and "\<not> startsWith (take 5 bytes) ''%PDF-''"
    and "getRedisClient e \<noteq> NotDefined"
  shows "fst (runMergeJob e job w) = Inl SECURITY_VIOLATION \<and>
         uploads (snd (runMergeJob e job w)) = uploads w \<and>
         (\<exists>d'. db (snd (runMergeJob e job w)) (jd_id d) = Some d' \<and>
               status d' = FAILED \<and> errorCode d' = Some ''INVALID_OUTPUT'' \<and>
               outputInfo d' = outputInfo d \<and>
               map (\<lambda>t. (lc_from t, lc_to t)) (lifecycleHistory d') =
                 map (\<lambda>t. (lc_from t, lc_to t)) (lifecycleHistory d) @
                   [(status d, MERGE_RUNNING), (MERGE_RUNNING, FAILED)])"
  using invalid_output_run [OF assms(1-15), of SECURITY_VIOLATION] assms(16)
  by (simp add: security_violation_code)

text \<open>
  C6 at the module as it stands. The bytes \<open><html>\<close> fail the signature check, the
  \<open>catch\<close> block calls \<open>releaseRenderLock\<close>, which throws the \<open>ReferenceError\<close>, and
  that error replaces the security violation: nothing is uploaded and the job ends in
  \<open>FAILED\<close>, but the recorded error code is \<open>UNKNOWN\<close>, not \<open>INVALID_OUTPUT\<close>.
\<close>

theorem invalid_output_recorded_as_unknown:
  "fst (runMergeJob sampleEnv (sampleMergeJob ''65a1b2c3d4e5f60718293a4b'') sampleWorld)
     = Inl ''getRedisClient is not defined'' \<and>
   uploads (snd (runMergeJob sampleEnv (sampleMergeJob ''65a1b2c3d4e5f60718293a4b'') sampleWorld)) = [] \<and>
   (\<exists>d'. db (snd (runMergeJob sampleEnv (sampleMergeJob ''65a1b2c3d4e5f60718293a4b'') sampleWorld))
            ''65a1b2c3d4e5f60718293a4b'' = Some d' \<and>
         status d' = FAILED \<and> errorCode d' = Some ''UNKNOWN'')"
  using sample_invalid_output_run [of NotDefined] unfolding sample_env_as_module by auto

text \<open>
  A merge work item whose root id differs from the \<open>jobId\<close> of the signed payload of
  the job it finds never gets past the checks of \<open>processMerge\<close>: the call throws, with
  the job record, the object store and the coordination store as they were.
\<close>

lemma processMerge_mismatch_fails_closed:
  assumes "(case data_printJobId job of Some i \<Rightarrow> Some i | None \<Rightarrow> parent_printJobId job) = Some r"
    and "findById e r w = Some d" and "r \<noteq> jd_id d"
  shows "\<exists>msg. processMerge e job w = (Inl msg, w)"
  using assms
  by (auto simp: processMerge_def Let_def split: option.splits sum.splits)

lemma sample_mismatch_premises:
  "data_printJobId (sampleMergeJob ''65A1B2C3D4E5F60718293A4B'') = Some ''65A1B2C3D4E5F60718293A4B''"
  "castId sampleEnv ''65A1B2C3D4E5F60718293A4B'' = jd_id sampleJobDoc"
  "findById sampleEnv ''65A1B2C3D4E5F60718293A4B'' sampleWorld = Some sampleJobDoc"
  "status sampleJobDoc = CREATED \<or> status sampleJobDoc = BATCH_RUNNING"
  "getProp (JObject samplePayload) ''jobId'' \<noteq> JString ''65A1B2C3D4E5F60718293A4B''"
  "others3 sampleEnv = id"
  "uploads sampleWorld = []"
  using sample_find(2,4) [of NotDefined] unfolding sample_env_as_module
  by (simp_all add: sampleMergeJob_def sample_doc_fields getProp_def samplePayload_def sampleEnv_def
      sampleWorld_def)

lemma hmac_stage_codes:
  "mapErrorCode (Some ''HMAC verification failed'') ''UNKNOWN'' = ''HMAC_FAILED''"
  "mapErrorCode (Some ''payloadHmac missing on job'') ''UNKNOWN'' = ''HMAC_FAILED''"
  by code_simp+

text \<open>
  C7 at a merge work item whose id is the job's id in upper case: Mongoose finds the job,
  the root id differs from the \<open>jobId\<close> of the signed payload, \<open>processMerge\<close> throws
  the mismatch before the \<open>MERGE_RUNNING\<close> transition and before any upload, and the
  failed handler marks the job \<open>FAILED\<close>. The recorded error code is \<open>UNKNOWN\<close>, not
  \<open>HMAC_FAILED\<close>: the message of the mismatch holds none of the words of
  \<open>mapErrorCode\<close>, while the two other errors of the same verification stage are
  classified \<open>HMAC_FAILED\<close>.
\<close>

theorem merge_root_mismatch_recorded_as_unknown:
  "processMerge sampleEnv (sampleMergeJob ''65A1B2C3D4E5F60718293A4B'') sampleWorld
     = (Inl (rootMismatchMessage ''65A1B2C3D4E5F60718293A4B'' ''65a1b2c3d4e5f60718293a4b''), sampleWorld) \<and>
   uploads (snd (runMergeJob sampleEnv (sampleMergeJob ''65A1B2C3D4E5F60718293A4B'') sampleWorld)) = [] \<and>
   map_option status
     (db (snd (runMergeJob sampleEnv (sampleMergeJob ''65A1B2C3D4E5F60718293A4B'') sampleWorld))
        ''65a1b2c3d4e5f60718293a4b'') = Some FAILED \<and>
   map_option errorCode
     (db (snd (runMergeJob sampleEnv (sampleMergeJob ''65A1B2C3D4E5F60718293A4B'') sampleWorld))
        ''65a1b2c3d4e5f60718293a4b'') = Some (Some ''UNKNOWN'') \<and>
   mapErrorCode (Some ''HMAC verification failed'') ''UNKNOWN'' = ''HMAC_FAILED'' \<and>
   mapErrorCode (Some ''payloadHmac missing on job'') ''UNKNOWN'' = ''HMAC_FAILED''"
proof -
  obtain sg where sg: "sampleSignature = Some sg" "sg \<noteq> []"
    using sample_signature by blast
  have h6: "payloadHmac sampleJobDoc = Some sg" by (simp add: sample_doc_fields sg)
  have h2: "''65A1B2C3D4E5F60718293A4B'' \<noteq> []" by simp
  note T = merge_mismatch_run [OF sample_mismatch_premises(1) h2 sample_mismatch_premises(3,2,4)
      h6 sg(2) sample_payload sample_mismatch_premises(5,6)]
  show ?thesis
    using T unfolding sample_doc_fields(1) mismatch_code
    by (auto simp: sample_mismatch_premises(7) hmac_stage_codes)
qed

text \<open>
  C1 at the failed handler. The handler loads the job, sets \<open>status = 'FAILED'\<close> on the
  loaded document and saves it: the write is not conditioned on the persisted status.
  In the race below the handler read \<open>MERGE_RUNNING\<close>, the persisted status is
  \<open>READY\<close> when the save arrives, and the save makes it \<open>FAILED\<close>.
\<close>

theorem failed_handler_overwrites_ready:
  "map_option status (db sampleRunningWorld ''65a1b2c3d4e5f60718293a4b'') = Some MERGE_RUNNING \<and>
   map_option status (db (others3 raceEnv sampleRunningWorld) ''65a1b2c3d4e5f60718293a4b'') = Some READY \<and>
   map_option status
     (db (fst (failedHandler raceEnv stalledJob ''job stalled more than allowable limit'' sampleRunningWorld))
        ''65a1b2c3d4e5f60718293a4b'') = Some FAILED"
proof -
  let ?r = "''65a1b2c3d4e5f60718293a4b''"
  let ?d = "sampleJobDoc\<lparr>status := MERGE_RUNNING\<rparr>"
  let ?d3 = "toReady sampleEnv ''documents/final/job-1.pdf'' ?d"
  have j: "jd_id ?d = ?r" by (simp add: sampleJobDoc_def)
  have cs: "castId sampleEnv ?r = ?r" "castId raceEnv ?r = ?r"
    by (simp_all add: raceEnv_def sampleEnv_def to_lower_lower_id del: list.map)
  have d0: "db sampleRunningWorld ?r = Some ?d" by (simp add: sampleRunningWorld_def)
  have f: "findById raceEnv ?r sampleRunningWorld = Some ?d"
    unfolding findById_def cs by (rule d0)
  have o: "others3 raceEnv sampleRunningWorld
             = sampleRunningWorld\<lparr>db := (db sampleRunningWorld)(?r \<mapsto> ?d3)\<rparr>"
    using updateIfStatus_conditional(2) [of sampleRunningWorld sampleEnv ?r ?d MERGE_RUNNING]
    by (simp add: raceEnv_def cs d0)
  have o3: "db (others3 raceEnv sampleRunningWorld) (jd_id ?d) = Some ?d3"
    unfolding o j by simp
  have h: "db (fst (failedHandler raceEnv stalledJob ''job stalled more than allowable limit'' sampleRunningWorld)) (jd_id ?d)
         = Some (failedUpdate raceEnv stalledJob ''job stalled more than allowable limit'' (status ?d) ?d3)"
    by (rule failedHandler_writes_whatever_is_persisted [OF _ _ _ f _ o3]) (simp_all add: stalledJob_def)
  have s3: "status ?d3 = READY" by (simp add: toReady_def)
  show ?thesis
    using d0 o3 h s3 unfolding j by (simp add: failedUpdate_status)
qed

end
